theory Spec2Isabelle
  imports
    Main
    "HOL-Library.Char_ord"
    "HOL-Library.List_Lexorder"
    "HOL-Library.Product_Lexorder"
begin

section \<open>The r\'esum\'e parser \<^verbatim>\<open>src/parsers/resume_analyzer.py\<close>\<close>

text \<open>
  A Python \<^verbatim>\<open>str\<close> is a sequence of code points, here a list of natural numbers
  (\<open>ustr\<close>); \<open>cps\<close> turns a literal of the theory into such a text. What Python decides
  by a short, fixed list of code points (white space, line boundaries, the ASCII
  classes of the patterns) is written out. What it decides by the tables of the Unicode
  database (case, alphanumeric and decimal characters), what the interpreter and its
  console fix (the depth at which the JSON decoder gives up, the digits an integer may
  have, the texts the console can encode, the floating point numbers), and what the
  libraries and the external service answer, are the fields of one record, the
  environment \<open>env\<close>. Every function of the program that depends on one of them takes
  the environment as its first argument, and the theorems hold for every environment.
\<close>

subsection \<open>Strings\<close>

type_synonym codepoint = nat

type_synonym ustr = "codepoint list"

definition cp :: "char \<Rightarrow> codepoint" where
  "cp c = of_char c"

definition cps :: "string \<Rightarrow> ustr" where
  "cps s = map cp s"

definition LF :: codepoint where "LF = 0x0A"
definition CR :: codepoint where "CR = 0x0D"

definition in_range :: "codepoint \<Rightarrow> codepoint \<Rightarrow> codepoint \<Rightarrow> bool" where
  "in_range lo hi c = (lo \<le> c \<and> c \<le> hi)"

text \<open>\<^verbatim>\<open>str.isspace\<close>, which is also what \<^verbatim>\<open>strip()\<close>, \<^verbatim>\<open>split()\<close> and the pattern
  \<^verbatim>\<open>\s\<close> use.\<close>

definition isspace :: "codepoint \<Rightarrow> bool" where
  "isspace c = (c \<in> set [0x09, 0x0A, 0x0B, 0x0C, 0x0D, 0x1C, 0x1D, 0x1E, 0x1F, 0x20,
                           0x85, 0xA0, 0x1680,
                           0x2000, 0x2001, 0x2002, 0x2003, 0x2004, 0x2005, 0x2006,
                           0x2007, 0x2008, 0x2009, 0x200A,
                           0x2028, 0x2029, 0x202F, 0x205F, 0x3000])"

text \<open>The line boundaries of \<^verbatim>\<open>str.splitlines\<close>.\<close>

definition is_linebreak :: "codepoint \<Rightarrow> bool" where
  "is_linebreak c = (c \<in> set [0x0A, 0x0B, 0x0C, 0x0D, 0x1C, 0x1D, 0x1E, 0x85,
                                0x2028, 0x2029])"

definition is_ascii_upper :: "codepoint \<Rightarrow> bool" where
  "is_ascii_upper c = in_range (cp CHR ''A'') (cp CHR ''Z'') c"

definition is_ascii_lower :: "codepoint \<Rightarrow> bool" where
  "is_ascii_lower c = in_range (cp CHR ''a'') (cp CHR ''z'') c"

definition is_ascii_digit :: "codepoint \<Rightarrow> bool" where
  "is_ascii_digit c = in_range (cp CHR ''0'') (cp CHR ''9'') c"

definition is_ascii_alpha :: "codepoint \<Rightarrow> bool" where
  "is_ascii_alpha c = (is_ascii_upper c \<or> is_ascii_lower c)"

definition py_strip :: "ustr \<Rightarrow> ustr" where
  "py_strip s = rev (dropWhile isspace (rev (dropWhile isspace s)))"

text \<open>\<^verbatim>\<open>s.split()\<close>: the maximal runs of characters that are not white space.\<close>

fun split_from :: "ustr \<Rightarrow> ustr \<Rightarrow> ustr list" where
  "split_from cur [] = (if cur = [] then [] else [rev cur])"
| "split_from cur (c # cs) =
     (if isspace c then (if cur = [] then split_from [] cs else rev cur # split_from [] cs)
      else split_from (c # cur) cs)"

definition py_split :: "ustr \<Rightarrow> ustr list" where
  "py_split s = split_from [] s"

text \<open>\<^verbatim>\<open>s.split("@")[0]\<close>: the text before the first separator, all of it when there
  is none.\<close>

definition before_sep :: "codepoint \<Rightarrow> ustr \<Rightarrow> ustr" where
  "before_sep sep s = takeWhile (\<lambda>c. c \<noteq> sep) s"

text \<open>\<^verbatim>\<open>s.splitlines()\<close>: a line ends at a line boundary (\<open>CR LF\<close> is one boundary); the
  boundaries are dropped, and a text that ends with one has no empty last line.\<close>

fun py_splitlines :: "ustr \<Rightarrow> ustr list" where
  "py_splitlines [] = []"
| "py_splitlines [c] = (if is_linebreak c then [[]] else [[c]])"
| "py_splitlines (c # d # cs) =
     (if c = CR \<and> d = LF then [] # py_splitlines cs
      else if is_linebreak c then [] # py_splitlines (d # cs)
      else (case py_splitlines (d # cs) of
              [] \<Rightarrow> [[c]]
            | l # ls \<Rightarrow> (c # l) # ls))"

fun py_join :: "ustr \<Rightarrow> ustr list \<Rightarrow> ustr" where
  "py_join sep [] = []"
| "py_join sep [x] = x"
| "py_join sep (x # y # ys) = x @ sep @ py_join sep (y # ys)"

text \<open>\<^verbatim>\<open>xs[a:b]\<close> for indices that are not negative.\<close>

definition slice :: "'a list \<Rightarrow> nat \<Rightarrow> nat \<Rightarrow> 'a list" where
  "slice xs a b = take (b - a) (drop a xs)"

text \<open>\<^verbatim>\<open>sub in s\<close> for texts.\<close>

fun contains :: "ustr \<Rightarrow> ustr \<Rightarrow> bool" where
  "contains sub [] = (sub = [])"
| "contains sub (c # cs) = (take (length sub) (c # cs) = sub \<or> contains sub cs)"

subsection \<open>Python values, exceptions, and the environment\<close>

text \<open>
  The values that \<^verbatim>\<open>json.loads\<close> builds and that the output record holds. A float is
  named by its \<^verbatim>\<open>repr\<close>; which float a literal denotes, and whether a float is zero,
  is the environment's to say. An exception is a value of \<open>py_error\<close>. What the program
  does to the world is a list of events: it runs the external service on a prompt, and
  it prints.
\<close>

datatype pyfloat = Float ustr

datatype pyval =
    PNone
  | PBool bool
  | PInt int
  | PFloat pyfloat
  | PStr ustr
  | PList "pyval list"
  | PDict "(ustr \<times> pyval) list"

datatype py_error =
    KeyError ustr
  | AttributeError
  | JSONDecodeError
  | ValueError
  | RecursionError
  | UnicodeEncodeError
  | OSError

datatype event = Ollama ustr | Print ustr

type_synonym world = "event list"

text \<open>
  The environment:
  \<^item> \<open>ollama\<close>: \<^verbatim>\<open>subprocess.run(["ollama", "run", LLM_MODEL], input=...)\<close>, the standard
    output of the service for a prompt, or the exception of a run that fails; the
    answer may depend on the events so far;
  \<^item> \<open>nlp\<close>: the spaCy pipeline, the entities of a text with their labels, or the
    exception it raises (it refuses a text beyond its maximal length);
  \<^item> \<open>HumanName\<close>: the nameparser class, the \<open>first\<close> and \<open>last\<close> attributes of a
    parsed name;
  \<^item> \<open>print_error\<close>: the exception that \<^verbatim>\<open>print\<close> raises for a text, if any
    (\<^verbatim>\<open>UnicodeEncodeError\<close> when the console cannot encode it, \<^verbatim>\<open>OSError\<close> when the
    stream is closed);
  \<^item> \<open>json_max_depth\<close>: how many arrays and objects the JSON decoder may have open at
    once before the interpreter raises \<^verbatim>\<open>RecursionError\<close>;
  \<^item> \<open>int_max_str_digits\<close>: the limit of \<^verbatim>\<open>int()\<close> on the digits of a literal (none
    before Python 3.11, 4300 by default since), beyond which it raises \<^verbatim>\<open>ValueError\<close>;
  \<^item> \<open>float_of\<close>, \<open>float_nonzero\<close>: \<^verbatim>\<open>float(text)\<close> and \<^verbatim>\<open>bool(x)\<close> for a float;
  \<^item> \<open>str_lower\<close>, \<open>str_title\<close>: \<^verbatim>\<open>str.lower\<close> and \<^verbatim>\<open>str.title\<close>;
  \<^item> \<open>is_alnum\<close>, \<open>is_decimal\<close>: the characters that \<^verbatim>\<open>\w\<close> (with the underscore) and
    \<^verbatim>\<open>\d\<close> match;
  \<^item> \<open>ieq a c\<close>: under \<^verbatim>\<open>re.I\<close>, the character \<open>a\<close> of a pattern matches the
    character \<open>c\<close> of the text.
\<close>

record env =
  ollama :: "world \<Rightarrow> ustr \<Rightarrow> py_error + ustr"
  nlp :: "ustr \<Rightarrow> py_error + (ustr \<times> ustr) list"
  HumanName :: "ustr \<Rightarrow> ustr \<times> ustr"
  print_error :: "ustr \<Rightarrow> py_error option"
  json_max_depth :: nat
  int_max_str_digits :: "nat option"
  float_of :: "ustr \<Rightarrow> pyfloat"
  float_nonzero :: "pyfloat \<Rightarrow> bool"
  str_lower :: "ustr \<Rightarrow> ustr"
  str_title :: "ustr \<Rightarrow> ustr"
  is_alnum :: "codepoint \<Rightarrow> bool"
  is_decimal :: "codepoint \<Rightarrow> bool"
  ieq :: "codepoint \<Rightarrow> codepoint \<Rightarrow> bool"

definition ebind :: "'e + 'a \<Rightarrow> ('a \<Rightarrow> 'e + 'b) \<Rightarrow> 'e + 'b" where
  "ebind m f = (case m of Inl e \<Rightarrow> Inl e | Inr x \<Rightarrow> f x)"

text \<open>\<^verbatim>\<open>d[k]\<close>, which raises \<^verbatim>\<open>KeyError\<close> for a missing key.\<close>

definition getitem :: "(ustr \<rightharpoonup> 'a) \<Rightarrow> ustr \<Rightarrow> py_error + 'a" where
  "getitem d k = (case d k of None \<Rightarrow> Inl (KeyError k) | Some v \<Rightarrow> Inr v)"

text \<open>\<^verbatim>\<open>print(text)\<close>\<close>

definition py_print :: "env \<Rightarrow> ustr \<Rightarrow> world \<Rightarrow> py_error + world" where
  "py_print E text w =
     (case print_error E text of None \<Rightarrow> Inr (w @ [Print text]) | Some e \<Rightarrow> Inl e)"

text \<open>The truth value of an object, as \<^verbatim>\<open>if x:\<close> tests it.\<close>

fun truthy :: "env \<Rightarrow> pyval \<Rightarrow> bool" where
  "truthy E PNone = False"
| "truthy E (PBool b) = b"
| "truthy E (PInt i) = (i \<noteq> 0)"
| "truthy E (PFloat f) = float_nonzero E f"
| "truthy E (PStr s) = (s \<noteq> [])"
| "truthy E (PList xs) = (xs \<noteq> [])"
| "truthy E (PDict d) = (d \<noteq> [])"

text \<open>\<^verbatim>\<open>d[k] = v\<close> on a dictionary kept in insertion order, and \<^verbatim>\<open>d.get(k, default)\<close>.\<close>

fun dict_set :: "(ustr \<times> pyval) list \<Rightarrow> ustr \<Rightarrow> pyval \<Rightarrow> (ustr \<times> pyval) list" where
  "dict_set [] k v = [(k, v)]"
| "dict_set ((k', v') # d) k v =
     (if k' = k then (k, v) # d else (k', v') # dict_set d k v)"

definition dict_get :: "(ustr \<times> pyval) list \<Rightarrow> ustr \<Rightarrow> pyval \<Rightarrow> pyval" where
  "dict_get d k dflt = (case map_of d k of Some v \<Rightarrow> v | None \<Rightarrow> dflt)"

subsection \<open>Regular expressions\<close>

text \<open>
  The patterns of the program, as terms, and the backtracking matcher of \<^verbatim>\<open>re\<close>.
  A position is the text already passed (reversed, so its head is the character before
  the position) and the text ahead. \<open>rx_run\<close> lists the positions where a match of the
  pattern that starts at the given position can end, in the order in which the matcher
  tries them: a repetition is greedy, an alternative tries its left branch first. The
  head of the list is the match that \<^verbatim>\<open>re\<close> reports. The flag is \<^verbatim>\<open>re.I\<close>; it bears on
  literal characters (the patterns compiled with it have no character class of letters).
\<close>

datatype rx =
    Sym "codepoint \<Rightarrow> bool"
  | Lit codepoint
  | Eps
  | Seq rx rx
  | Alt rx rx
  | Star rx
  | Bol
  | Eol
  | WordB

type_synonym pos = "ustr \<times> ustr"

text \<open>\<^verbatim>\<open>\w\<close>: alphanumeric or the underscore.\<close>

definition is_word :: "env \<Rightarrow> codepoint \<Rightarrow> bool" where
  "is_word E c = (is_alnum E c \<or> c = cp CHR ''_'')"

definition word_before :: "env \<Rightarrow> pos \<Rightarrow> bool" where
  "word_before E p = (case fst p of [] \<Rightarrow> False | c # _ \<Rightarrow> is_word E c)"

definition word_after :: "env \<Rightarrow> pos \<Rightarrow> bool" where
  "word_after E p = (case snd p of [] \<Rightarrow> False | c # _ \<Rightarrow> is_word E c)"

definition lit_eq :: "env \<Rightarrow> bool \<Rightarrow> codepoint \<Rightarrow> codepoint \<Rightarrow> bool" where
  "lit_eq E ic a c = (if ic then ieq E a c else c = a)"

function rx_run :: "env \<Rightarrow> bool \<Rightarrow> rx \<Rightarrow> pos \<Rightarrow> pos list" where
  "rx_run E ic (Sym P) p =
     (case snd p of [] \<Rightarrow> [] | c # cs \<Rightarrow> if P c then [(c # fst p, cs)] else [])"
| "rx_run E ic (Lit a) p =
     (case snd p of [] \<Rightarrow> [] | c # cs \<Rightarrow> if lit_eq E ic a c then [(c # fst p, cs)] else [])"
| "rx_run E ic Eps p = [p]"
| "rx_run E ic (Seq r1 r2) p = concat (map (rx_run E ic r2) (rx_run E ic r1 p))"
| "rx_run E ic (Alt r1 r2) p = rx_run E ic r1 p @ rx_run E ic r2 p"
| "rx_run E ic (Star r) p =
     concat (map (\<lambda>q. if length (snd q) < length (snd p) then rx_run E ic (Star r) q else [])
                 (rx_run E ic r p)) @ [p]"
| "rx_run E ic Bol p = (if fst p = [] then [p] else [])"
| "rx_run E ic Eol p = (if snd p = [] \<or> snd p = [LF] then [p] else [])"
| "rx_run E ic WordB p = (if word_before E p \<noteq> word_after E p then [p] else [])"
  by pat_completeness auto
termination
  by (relation "inv_image (less_than <*lex*> less_than) (\<lambda>(E, ic, r, p). (size r, length (snd p)))")
     auto

text \<open>One more round of a repetition, from a position reached by the round before.\<close>

definition star_next :: "env \<Rightarrow> bool \<Rightarrow> rx \<Rightarrow> nat \<Rightarrow> pos \<Rightarrow> pos list" where
  "star_next E ic r n q = (if length (snd q) < n then rx_run E ic (Star r) q else [])"

text \<open>The text of a match: what lies between its two positions.\<close>

definition group :: "pos \<Rightarrow> pos \<Rightarrow> ustr" where
  "group p q = take (length (snd p) - length (snd q)) (snd p)"

text \<open>\<^verbatim>\<open>re.search\<close>: the first position, from the left, where the pattern matches.\<close>

fun rx_search :: "env \<Rightarrow> bool \<Rightarrow> rx \<Rightarrow> ustr \<Rightarrow> ustr \<Rightarrow> (pos \<times> pos) option" where
  "rx_search E ic r b [] =
     (case rx_run E ic r (b, []) of [] \<Rightarrow> None | q # _ \<Rightarrow> Some ((b, []), q))"
| "rx_search E ic r b (c # cs) =
     (case rx_run E ic r (b, c # cs) of
        [] \<Rightarrow> rx_search E ic r (c # b) cs
      | q # _ \<Rightarrow> Some ((b, c # cs), q))"

definition re_search :: "env \<Rightarrow> bool \<Rightarrow> rx \<Rightarrow> ustr \<Rightarrow> ustr option" where
  "re_search E ic r s = map_option (\<lambda>(p, q). group p q) (rx_search E ic r [] s)"

text \<open>\<^verbatim>\<open>re.match\<close>: a match at the start of the text.\<close>

definition re_match :: "env \<Rightarrow> bool \<Rightarrow> rx \<Rightarrow> ustr \<Rightarrow> ustr option" where
  "re_match E ic r s =
     (case rx_run E ic r ([], s) of [] \<Rightarrow> None | q # _ \<Rightarrow> Some (group ([], s) q))"

text \<open>\<^verbatim>\<open>re.sub\<close> with a replacement computed from the text of each match, for a pattern
  that matches no empty text (the two patterns it is called with): the matches are
  taken from the left and do not overlap.\<close>

function re_sub :: "env \<Rightarrow> rx \<Rightarrow> (ustr \<Rightarrow> ustr) \<Rightarrow> ustr \<Rightarrow> ustr \<Rightarrow> ustr" where
  "re_sub E r f b [] = []"
| "re_sub E r f b (c # cs) =
     (case rx_run E False r (b, c # cs) of
        [] \<Rightarrow> c # re_sub E r f (c # b) cs
      | q # _ \<Rightarrow>
          if length (snd q) < length (c # cs)
          then f (group (b, c # cs) q) @ re_sub E r f (fst q) (snd q)
          else c # re_sub E r f (c # b) cs)"
  by pat_completeness auto
termination
  by (relation "measure (\<lambda>(E, r, f, b, s). length s)") auto

text \<open>The derived forms: \<^verbatim>\<open>r+\<close>, \<^verbatim>\<open>r?\<close>, \<^verbatim>\<open>r{n}\<close>, \<^verbatim>\<open>r{0,n}\<close>, a literal text, and an
  alternative of several branches.\<close>

definition rx_plus :: "rx \<Rightarrow> rx" where
  "rx_plus r = Seq r (Star r)"

definition rx_opt :: "rx \<Rightarrow> rx" where
  "rx_opt r = Alt r Eps"

fun rx_times :: "nat \<Rightarrow> rx \<Rightarrow> rx" where
  "rx_times 0 r = Eps"
| "rx_times (Suc n) r = Seq r (rx_times n r)"

fun rx_upto :: "nat \<Rightarrow> rx \<Rightarrow> rx" where
  "rx_upto 0 r = Eps"
| "rx_upto (Suc n) r = Alt (Seq r (rx_upto n r)) Eps"

fun rx_str :: "ustr \<Rightarrow> rx" where
  "rx_str [] = Eps"
| "rx_str (c # cs) = Seq (Lit c) (rx_str cs)"

fun rx_alts :: "rx list \<Rightarrow> rx" where
  "rx_alts [] = Sym (\<lambda>c. False)"
| "rx_alts [r] = r"
| "rx_alts (r # rs) = Alt r (rx_alts rs)"

fun rx_seqs :: "rx list \<Rightarrow> rx" where
  "rx_seqs [] = Eps"
| "rx_seqs [r] = r"
| "rx_seqs (r # rs) = Seq r (rx_seqs rs)"

subsection \<open>The constants of the module\<close>

text \<open>\<^verbatim>\<open>\d\<close>\<close>

definition rx_digit :: "env \<Rightarrow> rx" where
  "rx_digit E = Sym (is_decimal E)"

text \<open>\<^verbatim>\<open>[A-Za-z0-9+._%-]+@[A-Za-z0-9._%-]+\.[A-Za-z]{2,6}\<close>\<close>

definition EMAIL_RE :: rx where
  "EMAIL_RE =
     rx_seqs [
       rx_plus (Sym (\<lambda>c. is_ascii_alpha c \<or> is_ascii_digit c \<or> c \<in> set (cps ''+._%-''))),
       Lit (cp CHR ''@''),
       rx_plus (Sym (\<lambda>c. is_ascii_alpha c \<or> is_ascii_digit c \<or> c \<in> set (cps ''._%-''))),
       Lit (cp CHR ''.''),
       rx_times 2 (Sym is_ascii_alpha),
       rx_upto 4 (Sym is_ascii_alpha)]"

text \<open>\<^verbatim>\<open>\+?\d[\d ()\-]{7,}\d\<close>\<close>

definition PHONE_RE :: "env \<Rightarrow> rx" where
  "PHONE_RE E =
     rx_seqs [
       rx_opt (Lit (cp CHR ''+'')),
       rx_digit E,
       rx_times 7 (Sym (\<lambda>c. is_decimal E c \<or> c \<in> set (cps '' ()-''))),
       Star (Sym (\<lambda>c. is_decimal E c \<or> c \<in> set (cps '' ()-''))),
       rx_digit E]"

definition SECTION_ORDER :: "ustr list" where
  "SECTION_ORDER =
     [cps ''Contact Information'',
      cps ''Target Title'',
      cps ''Professional Summary'',
      cps ''Work Experience'',
      cps ''Education'',
      cps ''Skills & Interests'',
      cps ''Certifications'',
      cps ''Awards & Scholarships'',
      cps ''Projects'',
      cps ''Volunteering & Leadership'',
      cps ''Publications'']"

definition rx_ws :: rx where
  "rx_ws = Star (Sym isspace)"

definition rx_text :: "string \<Rightarrow> rx" where
  "rx_text s = rx_str (cps s)"

text \<open>The heading patterns, in the order of the dictionary. The accented \<open>e\<close> of the
  French words is the code point \<open>0xE9\<close>.\<close>

definition HEADING_PATTERNS :: "(ustr \<times> rx) list" where
  "HEADING_PATTERNS =
     [(cps ''Contact Information'', rx_text ''contact information''),
      (cps ''Target Title'', rx_text ''target title''),
      (cps ''Professional Summary'',
         rx_alts [rx_text ''professional summary'', rx_text ''summary'', rx_text ''profile'']),
      (cps ''Work Experience'',
         rx_alts [rx_text ''work experience'', rx_text ''experience'',
                  rx_text ''professional experience'']),
      (cps ''Education'', rx_text ''education''),
      (cps ''Skills & Interests'',
         rx_alts [rx_seqs [rx_text ''skills'', rx_ws,
                           rx_alts [Lit (cp CHR ''&''), rx_text ''and''], rx_ws,
                           rx_text ''interests''],
                  rx_text ''skills'', rx_text ''interests'',
                  rx_str (cps ''comp'' @ [0xE9] @ cps ''tences'')]),
      (cps ''Certifications'',
         rx_alts [Seq (rx_text ''certification'') (rx_opt (Lit (cp CHR ''s''))),
                  Seq (rx_text ''certificat'') (rx_opt (Lit (cp CHR ''s'')))]),
      (cps ''Awards & Scholarships'',
         rx_alts [rx_text ''awards'', rx_text ''scholarships'',
                  rx_str (cps ''r'' @ [0xE9] @ cps ''compenses'')]),
      (cps ''Projects'',
         rx_alts [Seq (rx_text ''project'') (rx_opt (Lit (cp CHR ''s''))),
                  Seq (rx_text ''projet'') (rx_opt (Lit (cp CHR ''s'')))]),
      (cps ''Volunteering & Leadership'',
         rx_alts [rx_text ''volunteering'', rx_text ''leadership'',
                  rx_str (cps ''b'' @ [0xE9] @ cps ''n'' @ [0xE9] @ cps ''volat'')]),
      (cps ''Publications'', Seq (rx_text ''publication'') (rx_opt (Lit (cp CHR ''s''))))]"

definition LOCATION_STOP :: "ustr set" where
  "LOCATION_STOP =
     {cps ''morocco'', cps ''maroc'', cps ''rabat'', cps ''casablanca'',
      cps ''tanger'', cps ''agadir'', cps ''meknes'', cps ''fes'', cps ''marrakesh''}"

subsection \<open>\<^verbatim>\<open>find_sections\<close>\<close>

text \<open>\<^verbatim>\<open>re.match(rf"^{pat}\s*:?\s*$", ln, flags=re.I)\<close>\<close>

definition heading_rx :: "rx \<Rightarrow> rx" where
  "heading_rx pat = rx_seqs [Bol, pat, rx_ws, rx_opt (Lit (cp CHR '':'')), rx_ws, Eol]"

definition is_heading :: "env \<Rightarrow> rx \<Rightarrow> ustr \<Rightarrow> bool" where
  "is_heading E pat ln = (re_match E True (heading_rx pat) ln \<noteq> None)"

text \<open>The markers, before they are sorted: for each line in turn, the names whose
  pattern matches it, in the order of the dictionary.\<close>

definition heading_markers :: "env \<Rightarrow> ustr list \<Rightarrow> (nat \<times> ustr) list" where
  "heading_markers E lines =
     concat (map (\<lambda>(i, ln). map (\<lambda>(name, pat). (i, name))
                                 (filter (\<lambda>(name, pat). is_heading E pat ln) HEADING_PATTERNS))
                 (enumerate 0 lines))"

text \<open>The loop over \<^verbatim>\<open>zip(markers, markers[1:] + [(len(lines), None)])\<close>: each marker
  is paired with the line index of the next one, the last with the number of lines.\<close>

definition section_body :: "ustr list \<Rightarrow> nat \<Rightarrow> nat \<Rightarrow> ustr" where
  "section_body lines start end' = py_strip (py_join [LF] (slice lines (start + 1) end'))"

definition assign_sections ::
  "ustr list \<Rightarrow> ((nat \<times> ustr) \<times> nat) list \<Rightarrow> (ustr \<rightharpoonup> ustr) \<Rightarrow> (ustr \<rightharpoonup> ustr)" where
  "assign_sections lines spans sections =
     fold (\<lambda>((start, name), end') m. m(name \<mapsto> section_body lines start end')) spans sections"

definition find_sections :: "env \<Rightarrow> ustr \<Rightarrow> (ustr \<rightharpoonup> ustr)" where
  "find_sections E text =
     (let lines = map py_strip (py_splitlines text);
          markers = sort (heading_markers E lines);
          sections = map_of (map (\<lambda>k. (k, [])) SECTION_ORDER)
      in assign_sections lines
           (zip markers (map fst (tl markers) @ [length lines])) sections)"

subsection \<open>\<^verbatim>\<open>extract_contact\<close>\<close>

record contact =
  First_Name :: ustr
  Last_Name :: ustr
  Email :: ustr
  Phone :: ustr
  Location :: ustr

text \<open>\<^verbatim>\<open>next((m.group() for ln in lines if (m := RE.search(ln))), "")\<close>\<close>

definition first_match :: "env \<Rightarrow> rx \<Rightarrow> ustr list \<Rightarrow> ustr" where
  "first_match E r lines =
     (case List.map_filter (re_search E False r) lines of [] \<Rightarrow> [] | m # _ \<Rightarrow> m)"

definition is_name_line :: "env \<Rightarrow> ustr \<Rightarrow> bool" where
  "is_name_line E ln =
     (2 \<le> length (py_split ln) \<and> length (py_split ln) \<le> 5 \<and>
      re_search E False EMAIL_RE ln = None \<and> re_search E False (PHONE_RE E) ln = None)"

definition name_line_of :: "env \<Rightarrow> ustr list \<Rightarrow> ustr" where
  "name_line_of E lines =
     (case filter (is_name_line E) (take 10 lines) of [] \<Rightarrow> [] | ln # _ \<Rightarrow> ln)"

text \<open>The entities kept by the second strategy: labelled \<open>PERSON\<close>, of two tokens or
  more, none of which is a location stop word.\<close>

definition person_ents :: "env \<Rightarrow> (ustr \<times> ustr) list \<Rightarrow> ustr list" where
  "person_ents E ents =
     map fst (filter (\<lambda>(txt, label). label = cps ''PERSON'' \<and> 2 \<le> length (py_split txt) \<and>
                        \<not> (\<exists>tok \<in> set (py_split txt). str_lower E tok \<in> LOCATION_STOP)) ents)"

text \<open>\<^verbatim>\<open>max(ents, key=len)\<close>: the first of the longest.\<close>

fun max_by_len :: "ustr \<Rightarrow> ustr list \<Rightarrow> ustr" where
  "max_by_len best [] = best"
| "max_by_len best (x # xs) = max_by_len (if length best < length x then x else best) xs"

text \<open>The third strategy: \<^verbatim>\<open>re.sub(r"[._\-]+", " ", local)\<close>, then
  \<^verbatim>\<open>re.sub(r"([a-z])([A-Z])", r"\1 \2", local)\<close>.\<close>

definition SEPARATORS_RE :: rx where
  "SEPARATORS_RE = rx_plus (Sym (\<lambda>c. c \<in> set (cps ''._-'')))"

definition CAMEL_RE :: rx where
  "CAMEL_RE = Seq (Sym is_ascii_lower) (Sym is_ascii_upper)"

definition name_from_email :: "env \<Rightarrow> ustr \<Rightarrow> ustr" where
  "name_from_email E email =
     (let local = before_sep (cp CHR ''@'') email;
          local = re_sub E SEPARATORS_RE (\<lambda>m. cps '' '') [] local;
          local = re_sub E CAMEL_RE (\<lambda>m. take 1 m @ cps '' '' @ drop 1 m) [] local
      in local)"

definition resolve_name :: "env \<Rightarrow> ustr list \<Rightarrow> ustr \<Rightarrow> py_error + ustr \<times> ustr" where
  "resolve_name E lines email =
     (let name_line = name_line_of E lines in
      if name_line \<noteq> [] then Inr (HumanName E name_line)
      else
        ebind (nlp E (py_join (cps '' '') (take 15 lines))) (\<lambda>ents.
          case person_ents E ents of
            e # es \<Rightarrow> Inr (HumanName E (max_by_len e es))
          | [] \<Rightarrow> Inr (HumanName E (name_from_email E email))))"

definition first_location :: "(ustr \<times> ustr) list \<Rightarrow> ustr" where
  "first_location ents =
     (case filter (\<lambda>(txt, label). label = cps ''GPE'' \<or> label = cps ''LOC'') ents of
        [] \<Rightarrow> []
      | (txt, label) # _ \<Rightarrow> txt)"

definition extract_contact :: "env \<Rightarrow> ustr \<Rightarrow> py_error + contact" where
  "extract_contact E text =
     (let lines = filter (\<lambda>ln. ln \<noteq> []) (map py_strip (take 30 (py_splitlines text)));
          email = first_match E EMAIL_RE lines;
          phone = first_match E (PHONE_RE E) lines
      in
      ebind (resolve_name E lines email) (\<lambda>(first, last).
      ebind (nlp E (py_join (cps '' '') (take 12 lines))) (\<lambda>ents.
        Inr \<lparr> First_Name = str_title E first, Last_Name = str_title E last,
              Email = email, Phone = phone, Location = first_location ents \<rparr>)))"

subsection \<open>\<^verbatim>\<open>json.loads\<close>\<close>

text \<open>
  The decoder of the standard library, as the grammar it accepts and the exceptions it
  raises. The text is read token by token (white space is blank, tab, line feed and
  carriage return) by a stack machine, from the left; the first failure is the outcome:
  \<^verbatim>\<open>JSONDecodeError\<close> for a text that is not JSON, \<^verbatim>\<open>RecursionError\<close> when an array
  or an object opens beyond the depth the interpreter allows, \<^verbatim>\<open>ValueError\<close> for an
  integer with more digits than \<^verbatim>\<open>int()\<close> converts.
\<close>

definition DQ :: codepoint where "DQ = 0x22"
definition BS :: codepoint where "BS = 0x5C"

definition quoted :: "string \<Rightarrow> string" where
  "quoted s = [CHR 0x22] @ s @ [CHR 0x22]"

definition hex_val :: "codepoint \<Rightarrow> nat option" where
  "hex_val c =
     (if is_ascii_digit c then Some (c - cp CHR ''0'')
      else if in_range (cp CHR ''a'') (cp CHR ''f'') c then Some (c - cp CHR ''a'' + 10)
      else if in_range (cp CHR ''A'') (cp CHR ''F'') c then Some (c - cp CHR ''A'' + 10)
      else None)"

text \<open>Four hexadecimal digits, and what follows them.\<close>

definition read_hex4 :: "ustr \<Rightarrow> (nat \<times> ustr) option" where
  "read_hex4 s =
     (case s of
        a # b # c # d # rest \<Rightarrow>
          (case (hex_val a, hex_val b, hex_val c, hex_val d) of
             (Some w, Some x, Some y, Some z) \<Rightarrow> Some (((w * 16 + x) * 16 + y) * 16 + z, rest)
           | _ \<Rightarrow> None)
      | _ \<Rightarrow> None)"

text \<open>An escaped low surrogate \<^verbatim>\<open>\uDC00\<close> to \<^verbatim>\<open>\uDFFF\<close>, and what follows it.\<close>

definition read_low_surrogate :: "ustr \<Rightarrow> (nat \<times> ustr) option" where
  "read_low_surrogate s =
     (case s of
        b # u # rest \<Rightarrow>
          if b = BS \<and> u = cp CHR ''u'' then
            (case read_hex4 rest of
               Some (l, rest') \<Rightarrow> if 0xDC00 \<le> l \<and> l \<le> 0xDFFF then Some (l, rest') else None
             | None \<Rightarrow> None)
          else None
      | _ \<Rightarrow> None)"

definition escape_char :: "codepoint \<Rightarrow> codepoint option" where
  "escape_char e =
     map_of [(DQ, 0x22), (BS, 0x5C), (cp CHR ''/'', 0x2F), (cp CHR ''b'', 0x08),
             (cp CHR ''f'', 0x0C), (cp CHR ''n'', 0x0A), (cp CHR ''r'', 0x0D),
             (cp CHR ''t'', 0x09)] e"

text \<open>One step in a string, after its opening quote: the closing quote; a character
  or an escape, with the code point it stands for and the rest of the text (an escaped
  high surrogate that an escaped low surrogate follows is one code point with it); or
  nothing, for the end of the text, a control character or a bad escape.\<close>

datatype string_step = Closed ustr | Next codepoint ustr | Bad

definition string_step :: "ustr \<Rightarrow> string_step" where
  "string_step s =
     (case s of
        [] \<Rightarrow> Bad
      | c # cs \<Rightarrow>
          if c = DQ then Closed cs
          else if c = BS then
            (case cs of
               [] \<Rightarrow> Bad
             | e # es \<Rightarrow>
                 if e = cp CHR ''u'' then
                   (case read_hex4 es of
                      None \<Rightarrow> Bad
                    | Some (h, rest) \<Rightarrow>
                        (case (if 0xD800 \<le> h \<and> h \<le> 0xDBFF then read_low_surrogate rest
                               else None) of
                           Some (l, rest') \<Rightarrow>
                             Next (0x10000 + ((h - 0xD800) * 0x400 + (l - 0xDC00))) rest'
                         | None \<Rightarrow> Next h rest))
                 else
                   (case escape_char e of
                      None \<Rightarrow> Bad
                    | Some x \<Rightarrow> Next x es))
          else if c < 0x20 then Bad
          else Next c cs)"

lemma string_step_Next_shorter: "string_step s = Next x rest \<Longrightarrow> length rest < length s"
  by (auto simp: string_step_def read_hex4_def read_low_surrogate_def
           split: list.splits if_splits option.splits prod.splits)

function scan_string :: "ustr \<Rightarrow> ustr \<Rightarrow> (ustr \<times> ustr) option" where
  "scan_string acc s =
     (case string_step s of
        Closed rest \<Rightarrow> Some (rev acc, rest)
      | Next x rest \<Rightarrow> scan_string (x # acc) rest
      | Bad \<Rightarrow> None)"
  by pat_completeness auto
termination
  by (relation "measure (\<lambda>(acc, s). length s)") (auto dest: string_step_Next_shorter)

declare scan_string.simps [simp del]

definition digits_val :: "ustr \<Rightarrow> nat" where
  "digits_val ds = foldl (\<lambda>n c. 10 * n + (c - cp CHR ''0'')) 0 ds"

text \<open>\<^verbatim>\<open>(-?(?:0|[1-9]\d*))(\.\d+)?([eE][-+]?\d+)?\<close>, piece by piece: the sign, the
  integer part (a lone zero, or digits that start with another digit), the fraction,
  the exponent; each with the text that follows it.\<close>

definition scan_sign :: "ustr \<Rightarrow> bool \<times> ustr" where
  "scan_sign s =
     (case s of
        [] \<Rightarrow> (False, s)
      | c # cs \<Rightarrow> if c = cp CHR ''-'' then (True, cs) else (False, s))"

definition scan_int_part :: "ustr \<Rightarrow> ustr \<times> ustr" where
  "scan_int_part s =
     (case s of
        [] \<Rightarrow> ([], s)
      | c # cs \<Rightarrow>
          if c = cp CHR ''0'' then ([c], cs)
          else (takeWhile is_ascii_digit s, dropWhile is_ascii_digit s))"

definition scan_fraction :: "ustr \<Rightarrow> ustr \<times> ustr" where
  "scan_fraction s =
     (case s of
        [] \<Rightarrow> ([], s)
      | c # cs \<Rightarrow>
          if c = cp CHR ''.'' \<and> takeWhile is_ascii_digit cs \<noteq> []
          then (c # takeWhile is_ascii_digit cs, dropWhile is_ascii_digit cs)
          else ([], s))"

definition scan_exponent :: "ustr \<Rightarrow> ustr \<times> ustr" where
  "scan_exponent s =
     (case s of
        [] \<Rightarrow> ([], s)
      | c # cs \<Rightarrow>
          if c = cp CHR ''e'' \<or> c = cp CHR ''E'' then
            (let (sgn, t) =
                   (case cs of
                      [] \<Rightarrow> ([], cs)
                    | x # xs \<Rightarrow>
                        if x = cp CHR ''-'' \<or> x = cp CHR ''+'' then ([x], xs) else ([], cs));
                 ds = takeWhile is_ascii_digit t
             in if ds = [] then ([], s)
                else (c # sgn @ ds, dropWhile is_ascii_digit t))
          else ([], s))"

text \<open>The atoms of a JSON text: a string; an integer literal (its sign and digits); a
  float literal (its text); the names.\<close>

datatype jatom =
    AStr ustr
  | AInt bool ustr
  | AFloat ustr
  | ANull
  | ABool bool

text \<open>A number is an integer when it has neither fraction nor exponent, a float
  otherwise.\<close>

definition scan_number :: "ustr \<Rightarrow> (jatom \<times> ustr) option" where
  "scan_number s =
     (case scan_sign s of (neg, s1) \<Rightarrow>
      case scan_int_part s1 of (ip, s2) \<Rightarrow>
      case scan_fraction s2 of (fr, s3) \<Rightarrow>
      case scan_exponent s3 of (ex, s4) \<Rightarrow>
        if ip = [] then None
        else if fr = [] \<and> ex = [] then Some (AInt neg ip, s4)
        else Some (AFloat ((if neg then cps ''-'' else []) @ ip @ fr @ ex), s4))"

text \<open>\<^verbatim>\<open>null\<close>, \<^verbatim>\<open>true\<close>, \<^verbatim>\<open>false\<close>, and the three names of floats that the decoder
  accepts.\<close>

definition scan_word :: "ustr \<Rightarrow> (jatom \<times> ustr) option" where
  "scan_word s =
     (case List.find (\<lambda>(w, v). take (length w) s = w)
             [(cps ''null'', ANull), (cps ''true'', ABool True), (cps ''false'', ABool False),
              (cps ''NaN'', AFloat (cps ''NaN'')), (cps ''Infinity'', AFloat (cps ''Infinity'')),
              (cps ''-Infinity'', AFloat (cps ''-Infinity''))] of
        None \<Rightarrow> None
      | Some (w, v) \<Rightarrow> Some (v, drop (length w) s))"

definition scan_atom :: "ustr \<Rightarrow> (jatom \<times> ustr) option" where
  "scan_atom s =
     (case s of
        [] \<Rightarrow> None
      | c # cs \<Rightarrow>
          if c = DQ
          then map_option (\<lambda>(u, rest). (AStr u, rest)) (scan_string [] cs)
          else (case scan_number s of Some r \<Rightarrow> Some r | None \<Rightarrow> scan_word s))"

datatype jtok = TLBrace | TRBrace | TLBrack | TRBrack | TColon | TComma | TAtom jatom

definition punct :: "codepoint \<Rightarrow> jtok option" where
  "punct c =
     map_of [(cp CHR ''{'', TLBrace), (cp CHR ''}'', TRBrace), (cp CHR ''['', TLBrack),
             (cp CHR '']'', TRBrack), (cp CHR '':'', TColon), (cp CHR '','', TComma)] c"

definition json_ws :: "codepoint \<Rightarrow> bool" where
  "json_ws c = (c \<in> set [0x20, 0x09, 0x0A, 0x0D])"

text \<open>The token at the head of a text that does not start with white space.\<close>

definition next_token :: "ustr \<Rightarrow> (jtok \<times> ustr) option" where
  "next_token s =
     (case s of
        [] \<Rightarrow> None
      | c # cs \<Rightarrow>
          (case punct c of
             Some t \<Rightarrow> Some (t, cs)
           | None \<Rightarrow> map_option (\<lambda>(a, rest). (TAtom a, rest)) (scan_atom s)))"

text \<open>The value of an atom: \<^verbatim>\<open>int(text)\<close>, which refuses a literal with too many
  digits, and \<^verbatim>\<open>float(text)\<close>.\<close>

definition atom_value :: "env \<Rightarrow> jatom \<Rightarrow> py_error + pyval" where
  "atom_value E a =
     (case a of
        AStr s \<Rightarrow> Inr (PStr s)
      | AInt neg ds \<Rightarrow>
          (case int_max_str_digits E of
             Some n \<Rightarrow>
               if n < length ds then Inl ValueError
               else Inr (PInt ((if neg then - 1 else 1) * int (digits_val ds)))
           | None \<Rightarrow> Inr (PInt ((if neg then - 1 else 1) * int (digits_val ds))))
      | AFloat t \<Rightarrow> Inr (PFloat (float_of E t))
      | ANull \<Rightarrow> Inr PNone
      | ABool b \<Rightarrow> Inr (PBool b))"

text \<open>The stack machine. A frame is a container that is being read: a list with the
  elements read so far; a dictionary that waits for a key; a dictionary whose key has
  been read and whose value is awaited.\<close>

datatype frame =
    FList "pyval list"
  | FDict "(ustr \<times> pyval) list"
  | FKey "(ustr \<times> pyval) list" ustr

datatype pmode =
    WantValue
  | WantValueOrClose
  | WantKey
  | WantKeyOrClose
  | WantColon
  | AfterValue
  | Done pyval

type_synonym pstate = "pmode \<times> frame list"

text \<open>A value is complete: it is the result, an element of the list, or the value of
  the pending key.\<close>

fun deliver :: "pyval \<Rightarrow> frame list \<Rightarrow> py_error + pstate" where
  "deliver v [] = Inr (Done v, [])"
| "deliver v (FList xs # st) = Inr (AfterValue, FList (xs @ [v]) # st)"
| "deliver v (FKey d k # st) = Inr (AfterValue, FDict (dict_set d k v) # st)"
| "deliver v (FDict d # st) = Inl JSONDecodeError"

fun close_list :: "frame list \<Rightarrow> py_error + pstate" where
  "close_list (FList xs # st) = deliver (PList xs) st"
| "close_list st = Inl JSONDecodeError"

fun close_dict :: "frame list \<Rightarrow> py_error + pstate" where
  "close_dict (FDict d # st) = deliver (PDict d) st"
| "close_dict st = Inl JSONDecodeError"

fun open_key :: "ustr \<Rightarrow> frame list \<Rightarrow> py_error + pstate" where
  "open_key k (FDict d # st) = Inr (WantColon, FKey d k # st)"
| "open_key k st = Inl JSONDecodeError"

fun after_comma :: "frame list \<Rightarrow> py_error + pstate" where
  "after_comma (FList xs # st) = Inr (WantValue, FList xs # st)"
| "after_comma (FDict d # st) = Inr (WantKey, FDict d # st)"
| "after_comma st = Inl JSONDecodeError"

text \<open>An array or an object opens: one more frame, unless the depth is exhausted.\<close>

definition open_frame :: "env \<Rightarrow> pmode \<Rightarrow> frame \<Rightarrow> frame list \<Rightarrow> py_error + pstate" where
  "open_frame E m f st =
     (if length st < json_max_depth E then Inr (m, f # st) else Inl RecursionError)"

fun want_value :: "env \<Rightarrow> bool \<Rightarrow> frame list \<Rightarrow> jtok \<Rightarrow> py_error + pstate" where
  "want_value E cl st (TAtom a) = ebind (atom_value E a) (\<lambda>v. deliver v st)"
| "want_value E cl st TLBrack = open_frame E WantValueOrClose (FList []) st"
| "want_value E cl st TLBrace = open_frame E WantKeyOrClose (FDict []) st"
| "want_value E cl st TRBrack = (if cl then close_list st else Inl JSONDecodeError)"
| "want_value E cl st t = Inl JSONDecodeError"

fun want_key :: "bool \<Rightarrow> frame list \<Rightarrow> jtok \<Rightarrow> py_error + pstate" where
  "want_key cl st (TAtom (AStr k)) = open_key k st"
| "want_key cl st TRBrace = (if cl then close_dict st else Inl JSONDecodeError)"
| "want_key cl st t = Inl JSONDecodeError"

fun after_value :: "frame list \<Rightarrow> jtok \<Rightarrow> py_error + pstate" where
  "after_value st TComma = after_comma st"
| "after_value st TRBrack = close_list st"
| "after_value st TRBrace = close_dict st"
| "after_value st t = Inl JSONDecodeError"

fun json_step :: "env \<Rightarrow> pstate \<Rightarrow> jtok \<Rightarrow> py_error + pstate" where
  "json_step E (WantValue, st) t = want_value E False st t"
| "json_step E (WantValueOrClose, st) t = want_value E True st t"
| "json_step E (WantKey, st) t = want_key False st t"
| "json_step E (WantKeyOrClose, st) t = want_key True st t"
| "json_step E (WantColon, st) t = (if t = TColon then Inr (WantValue, st) else Inl JSONDecodeError)"
| "json_step E (AfterValue, st) t = after_value st t"
| "json_step E (Done v, st) t = Inl JSONDecodeError"

lemma scan_string_shorter:
  "scan_string acc s = Some (u, rest) \<Longrightarrow> length rest < length s"
proof (induction acc s rule: scan_string.induct)
  case (1 acc s)
  show ?case
  proof (cases "string_step s")
    case (Closed r)
    with "1.prems" have "rest = r" by (simp add: scan_string.simps[of acc s])
    with Closed show ?thesis
      by (auto simp: string_step_def split: list.splits if_splits option.splits prod.splits)
  next
    case (Next x r)
    with "1.prems" have "scan_string (x # acc) r = Some (u, rest)"
      by (simp add: scan_string.simps[of acc s])
    from "1.IH"[OF Next this] string_step_Next_shorter[OF Next] show ?thesis by simp
  next
    case Bad
    with "1.prems" show ?thesis by (simp add: scan_string.simps[of acc s])
  qed
qed

lemma scan_sign_shorter: "length (snd (scan_sign s)) \<le> length s"
  by (simp add: scan_sign_def split: list.splits)

lemma scan_int_part_shorter:
  "scan_int_part s = (ip, rest) \<Longrightarrow> ip \<noteq> [] \<Longrightarrow> length rest < length s"
  by (cases s) (auto simp: scan_int_part_def less_Suc_eq_le length_dropWhile_le
                     split: if_splits)

lemma scan_fraction_shorter: "length (snd (scan_fraction s)) \<le> length s"
  by (simp add: scan_fraction_def length_dropWhile_le le_SucI split: list.splits)

lemma scan_exponent_shorter: "length (snd (scan_exponent s)) \<le> length s"
  by (auto simp: scan_exponent_def Let_def length_dropWhile_le le_SucI
           split: list.splits prod.splits if_splits)

lemma scan_number_shorter:
  assumes "scan_number s = Some (v, rest)"
  shows "length rest < length s"
proof -
  obtain neg s1 where s1: "scan_sign s = (neg, s1)" by (cases "scan_sign s")
  obtain ip s2 where s2: "scan_int_part s1 = (ip, s2)" by (cases "scan_int_part s1")
  obtain fr s3 where s3: "scan_fraction s2 = (fr, s3)" by (cases "scan_fraction s2")
  obtain ex s4 where s4: "scan_exponent s3 = (ex, s4)" by (cases "scan_exponent s3")
  from assms s1 s2 s3 s4 have ip: "ip \<noteq> []" and rest: "rest = s4"
    by (auto simp: scan_number_def split: if_splits)
  have "length s1 \<le> length s" using scan_sign_shorter[of s] s1 by simp
  moreover have "length s2 < length s1" using scan_int_part_shorter[OF s2 ip] .
  moreover have "length s3 \<le> length s2" using scan_fraction_shorter[of s2] s3 by simp
  moreover have "length s4 \<le> length s3" using scan_exponent_shorter[of s3] s4 by simp
  ultimately show ?thesis using rest by simp
qed

lemma scan_word_shorter: "scan_word s = Some (v, rest) \<Longrightarrow> length rest < length s"
  by (cases s) (auto simp: scan_word_def cps_def split: if_splits)

lemma scan_atom_shorter: "scan_atom s = Some (v, rest) \<Longrightarrow> length rest < length s"
  by (cases s)
     (auto simp: scan_atom_def less_SucI split: if_splits option.splits
           dest: scan_string_shorter scan_number_shorter scan_word_shorter)

lemma next_token_shorter: "next_token s = Some (t, rest) \<Longrightarrow> length rest < length s"
  by (cases s) (auto simp: next_token_def split: option.splits dest: scan_atom_shorter)

text \<open>The machine runs over the text: white space is skipped, each token is a step.\<close>

function json_run :: "env \<Rightarrow> pstate \<Rightarrow> ustr \<Rightarrow> py_error + pstate" where
  "json_run E s [] = Inr s"
| "json_run E s (c # cs) =
     (if json_ws c then json_run E s cs
      else
        (case next_token (c # cs) of
           None \<Rightarrow> Inl JSONDecodeError
         | Some (t, rest) \<Rightarrow>
             (case json_step E s t of
                Inl e \<Rightarrow> Inl e
              | Inr s' \<Rightarrow> json_run E s' rest)))"
  by pat_completeness auto
termination
  by (relation "measure (\<lambda>(E, s, text). length text)") (auto dest: next_token_shorter)

text \<open>\<^verbatim>\<open>json.loads(text)\<close>: the text must hold one value and nothing after it.\<close>

definition json_loads :: "env \<Rightarrow> ustr \<Rightarrow> py_error + pyval" where
  "json_loads E text =
     (case json_run E (WantValue, []) text of
        Inl e \<Rightarrow> Inl e
      | Inr (Done v, st) \<Rightarrow> Inr v
      | Inr _ \<Rightarrow> Inl JSONDecodeError)"

subsection \<open>\<^verbatim>\<open>call_llm\<close>\<close>

definition PROMPTS :: "(ustr \<times> ustr) list" where
  "PROMPTS =
     [(cps ''Professional Summary'',
         cps ''Extract one '' @ [0x2264] @ cps ''70'' @ [0x2011] @
         cps ''word professional summary.'' @ [LF] @
         cps (''Return JSON: { '' @ quoted ''Professional Summary'' @ '': '' @
              quoted ''...'' @ '' }'')),
      (cps ''Skills & Interests'',
         cps ''Group skills into'' @ [LF] @
         cps (''['' @ quoted ''Programming Languages'' @ '','' @
              quoted ''Frameworks & Libraries'' @ '','' @ quoted ''Tools & Platforms'' @ '','' @
              quoted ''Soft Skills'' @ '','' @ quoted ''Languages'' @ ''].'') @ [LF] @
         cps ''Return JSON exactly in that form.''),
      (cps ''Certifications'',
         cps ''List each certification with fields'' @ [LF] @
         cps (quoted ''Certificate'' @ '','' @ quoted ''Issuer'' @ '','' @ quoted ''Date'' @
              '' (Date may be empty).'') @ [LF] @
         cps (''Return JSON: { '' @ quoted ''Certifications'' @ '': [ {...}, ... ] }'')),
      (cps ''Projects'',
         cps (''For each project provide '' @ quoted ''Title'' @ '','' @
              quoted ''Description'' @ '','' @ quoted ''Technologies'' @ ''.'') @ [LF] @
         cps (''Return JSON: { '' @ quoted ''Projects'' @ '': [...] }''))]"

definition prompt_for :: "ustr \<Rightarrow> ustr" where
  "prompt_for section =
     (case map_of PROMPTS section of
        Some p \<Rightarrow> p
      | None \<Rightarrow>
          cps ''Extract structured data for '' @ [DQ] @ section @ [DQ] @
          cps ''. Return JSON: { '' @ [DQ] @ section @ [DQ] @ cps '': [...] }'')"

definition full_prompt :: "ustr \<Rightarrow> ustr \<Rightarrow> ustr" where
  "full_prompt section body =
     prompt_for section @ [LF, LF] @ cps ''---'' @ [LF] @ body @ [LF] @ cps ''---''"

text \<open>\<^verbatim>\<open>[] if section != "Professional Summary" else ""\<close>\<close>

definition sentinel :: "ustr \<Rightarrow> pyval" where
  "sentinel section = (if section \<noteq> cps ''Professional Summary'' then PList [] else PStr [])"

text \<open>\<^verbatim>\<open>\{.*\}\<close> with \<^verbatim>\<open>re.S\<close>: the dot matches every character.\<close>

definition BRACES_RE :: rx where
  "BRACES_RE = rx_seqs [Lit (cp CHR ''{''), Star (Sym (\<lambda>c. True)), Lit (cp CHR ''}'')]"

definition warn_no_json :: "ustr \<Rightarrow> ustr" where
  "warn_no_json section =
     [0x26A0, 0xFE0F] @ cps ''  '' @ section @ cps '': no JSON found in LLM output.''"

definition warn_invalid_json :: "ustr \<Rightarrow> ustr" where
  "warn_invalid_json section =
     [0x26A0, 0xFE0F] @ cps ''  '' @ section @ cps '': invalid JSON.''"

text \<open>\<^verbatim>\<open>parsed.get(section, parsed)\<close>: only a dictionary has the method.\<close>

definition get_section :: "pyval \<Rightarrow> ustr \<Rightarrow> py_error + pyval" where
  "get_section parsed section =
     (case parsed of
        PDict d \<Rightarrow> Inr (dict_get d section parsed)
      | _ \<Rightarrow> Inl AttributeError)"

text \<open>The \<^verbatim>\<open>try\<close> statement: of what \<^verbatim>\<open>json.loads\<close> and \<^verbatim>\<open>parsed.get\<close> raise, only
  \<^verbatim>\<open>JSONDecodeError\<close> is caught; it prints the warning and gives the sentinel.\<close>

definition call_llm :: "env \<Rightarrow> ustr \<Rightarrow> ustr \<Rightarrow> world \<Rightarrow> py_error + (pyval \<times> world)" where
  "call_llm E section body w =
     (if py_strip body = [] then Inr (sentinel section, w)
      else
        ebind (ollama E w (full_prompt section body)) (\<lambda>stdout.
          let w1 = w @ [Ollama (full_prompt section body)] in
          case re_search E False BRACES_RE stdout of
            None \<Rightarrow>
              ebind (py_print E (warn_no_json section) w1) (\<lambda>w2. Inr (sentinel section, w2))
          | Some m \<Rightarrow>
              (case ebind (json_loads E m) (\<lambda>parsed. get_section parsed section) of
                 Inr v \<Rightarrow> Inr (v, w1)
               | Inl JSONDecodeError \<Rightarrow>
                   ebind (py_print E (warn_invalid_json section) w1)
                     (\<lambda>w2. Inr (sentinel section, w2))
               | Inl e \<Rightarrow> Inl e)))"

subsection \<open>\<^verbatim>\<open>ensure_projects\<close> and \<^verbatim>\<open>ensure_certifications\<close>\<close>

text \<open>\<^verbatim>\<open>\b(project|built|developed|created|designed)\b\<close>, searched with \<^verbatim>\<open>re.I\<close>.\<close>

definition PROJECT_RE :: rx where
  "PROJECT_RE =
     rx_seqs [WordB,
              rx_alts [rx_text ''project'', rx_text ''built'', rx_text ''developed'',
                       rx_text ''created'', rx_text ''designed''],
              WordB]"

definition project_lines :: "env \<Rightarrow> ustr \<Rightarrow> ustr list" where
  "project_lines E work =
     filter (\<lambda>ln. re_search E True PROJECT_RE ln \<noteq> None) (py_splitlines work)"

definition ensure_projects ::
  "env \<Rightarrow> (ustr \<rightharpoonup> ustr) \<Rightarrow> (ustr \<rightharpoonup> pyval) \<Rightarrow> world \<Rightarrow>
     py_error + ((ustr \<rightharpoonup> pyval) \<times> world)" where
  "ensure_projects E sections output w =
     ebind (getitem output (cps ''Projects'')) (\<lambda>projects.
       if truthy E projects then Inr (output, w)
       else
         ebind (getitem sections (cps ''Work Experience'')) (\<lambda>work.
           let candidate = project_lines E work in
           if candidate = [] then Inr (output, w)
           else
             ebind (call_llm E (cps ''Projects'') (py_join [LF] candidate) w) (\<lambda>(parsed, w').
               if truthy E parsed then Inr (output(cps ''Projects'' \<mapsto> parsed), w')
               else Inr (output, w'))))"

definition cert_lines :: "env \<Rightarrow> ustr \<Rightarrow> ustr list" where
  "cert_lines E body =
     filter (\<lambda>ln. contains (cps ''cert'') (str_lower E ln)) (py_splitlines body)"

text \<open>\<^verbatim>\<open>sections.get(k, "")\<close>\<close>

definition get_or_empty :: "(ustr \<rightharpoonup> ustr) \<Rightarrow> ustr \<Rightarrow> ustr" where
  "get_or_empty sections k = (case sections k of None \<Rightarrow> [] | Some v \<Rightarrow> v)"

definition ensure_certifications ::
  "env \<Rightarrow> (ustr \<rightharpoonup> ustr) \<Rightarrow> (ustr \<rightharpoonup> pyval) \<Rightarrow> world \<Rightarrow>
     py_error + ((ustr \<rightharpoonup> pyval) \<times> world)" where
  "ensure_certifications E sections output w =
     ebind (getitem output (cps ''Certifications'')) (\<lambda>certs.
       if truthy E certs then Inr (output, w)
       else
         (let lines = cert_lines E (get_or_empty sections (cps ''Skills & Interests'')) @
                      cert_lines E (get_or_empty sections (cps ''Work Experience''))
          in if lines = [] then Inr (output, w)
             else
               ebind (call_llm E (cps ''Certifications'') (py_join [LF] lines) w) (\<lambda>(parsed, w').
                 if truthy E parsed then Inr (output(cps ''Certifications'' \<mapsto> parsed), w')
                 else Inr (output, w'))))"

subsection \<open>The script\<close>

text \<open>The contact record as the dictionary that \<^verbatim>\<open>extract_contact\<close> returns.\<close>

definition contact_dict :: "contact \<Rightarrow> pyval" where
  "contact_dict c =
     PDict [(cps ''First Name'', PStr (First_Name c)),
            (cps ''Last Name'', PStr (Last_Name c)),
            (cps ''Email'', PStr (Email c)),
            (cps ''Phone'', PStr (Phone c)),
            (cps ''Location'', PStr (Location c))]"

text \<open>\<^verbatim>\<open>for sec in (...): out[sec] = call_llm(sec, sections[sec])\<close>\<close>

fun extract_each ::
  "env \<Rightarrow> (ustr \<rightharpoonup> ustr) \<Rightarrow> ustr list \<Rightarrow> (ustr \<rightharpoonup> pyval) \<Rightarrow> world \<Rightarrow>
     py_error + ((ustr \<rightharpoonup> pyval) \<times> world)" where
  "extract_each E sections [] out w = Inr (out, w)"
| "extract_each E sections (sec # secs) out w =
     ebind (getitem sections sec) (\<lambda>body.
     ebind (call_llm E sec body w) (\<lambda>(v, w').
       extract_each E sections secs (out(sec \<mapsto> v)) w'))"

text \<open>\<^verbatim>\<open>for sec in (...): out[sec] = out.get(sec, [])\<close>\<close>

definition fill_placeholders :: "ustr list \<Rightarrow> (ustr \<rightharpoonup> pyval) \<Rightarrow> (ustr \<rightharpoonup> pyval)" where
  "fill_placeholders secs out =
     fold (\<lambda>sec out. out(sec \<mapsto> (case out sec of Some v \<Rightarrow> v | None \<Rightarrow> PList []))) secs out"

text \<open>The statements of the module after its constants, from the text that
  \<^verbatim>\<open>extract_text\<close> read in the PDF file to the record \<^verbatim>\<open>out\<close> that is then written
  to a file.\<close>

definition main :: "env \<Rightarrow> ustr \<Rightarrow> world \<Rightarrow> py_error + ((ustr \<rightharpoonup> pyval) \<times> world)" where
  "main E pdf_text w =
     (let raw = filter (\<lambda>c. c \<noteq> CR) pdf_text;
          sections = find_sections E raw;
          out = Map.empty
      in
      ebind (getitem sections (cps ''Contact Information'')) (\<lambda>ci.
      ebind (if ci \<noteq> [] then extract_contact E ci else extract_contact E raw) (\<lambda>contact.
      let out = out(cps ''Contact Information'' \<mapsto> contact_dict contact) in
      ebind (getitem sections (cps ''Target Title'')) (\<lambda>tt.
      let tt_lines = filter (\<lambda>ln. py_strip ln \<noteq> []) (py_splitlines tt);
          out = out(cps ''Target Title'' \<mapsto> PStr (case tt_lines of [] \<Rightarrow> [] | ln # _ \<Rightarrow> ln))
      in
      ebind (extract_each E sections [cps ''Professional Summary''] out w) (\<lambda>(out, w).
      ebind (extract_each E sections [cps ''Work Experience'', cps ''Education''] out w) (\<lambda>(out, w).
      ebind (extract_each E sections
               [cps ''Skills & Interests'', cps ''Certifications'', cps ''Projects''] out w)
        (\<lambda>(out, w).
      ebind (ensure_projects E sections out w) (\<lambda>(out, w).
      ebind (ensure_certifications E sections out w) (\<lambda>(out, w).
      Inr (fill_placeholders
             [cps ''Awards & Scholarships'', cps ''Volunteering & Leadership'',
              cps ''Publications'']
             out, w))))))))))"

section \<open>Vocabulary of the proofs\<close>

text \<open>The invariant of the stack machine while it reads an object: the stack is not
  empty and its bottom frame is that of a dictionary; the result, once there, is a
  dictionary.\<close>

fun dict_frame :: "frame \<Rightarrow> bool" where
  "dict_frame (FList xs) = False"
| "dict_frame (FDict d) = True"
| "dict_frame (FKey d k) = True"

definition dict_bottom :: "frame list \<Rightarrow> bool" where
  "dict_bottom st = (st \<noteq> [] \<and> dict_frame (last st))"

fun dict_state :: "pmode \<times> frame list \<Rightarrow> bool" where
  "dict_state (Done v, st) = (\<exists>d. v = PDict d)"
| "dict_state (m, st) = dict_bottom st"

text \<open>\<^verbatim>\<open>.*c\<close>, the tail of the pattern of the span.\<close>

definition ANY_THEN :: "codepoint \<Rightarrow> rx" where
  "ANY_THEN c = Seq (Star (Sym (\<lambda>c. True))) (Lit c)"

text \<open>Where the section of a marker ends: at the line of the marker that follows it in
  the sorted list, or at the end of the text.\<close>

definition span_end :: "(nat \<times> ustr) list \<Rightarrow> nat \<times> ustr \<Rightarrow> nat \<Rightarrow> nat" where
  "span_end markers m n =
     (case dropWhile (\<lambda>x. x \<noteq> m) markers of
        _ # (k, _) # _ \<Rightarrow> k
      | _ \<Rightarrow> n)"

text \<open>
  An environment for the concrete runs, in which every text is ASCII: the service
  answers each prompt with a given text, spaCy finds no entity, a name is split into its
  first and its last word, the console prints everything, and the interpreter has its
  default limits.
\<close>

definition ascii_lower :: "codepoint \<Rightarrow> codepoint" where
  "ascii_lower c = (if is_ascii_upper c then c + 32 else c)"

definition ascii_upper :: "codepoint \<Rightarrow> codepoint" where
  "ascii_upper c = (if is_ascii_lower c then c - 32 else c)"

fun ascii_title :: "bool \<Rightarrow> ustr \<Rightarrow> ustr" where
  "ascii_title inside [] = []"
| "ascii_title inside (c # cs) =
     (if is_ascii_alpha c
      then (if inside then ascii_lower c else ascii_upper c) # ascii_title True cs
      else c # ascii_title False cs)"

definition first_and_last :: "ustr \<Rightarrow> ustr \<times> ustr" where
  "first_and_last s =
     (case py_split s of
        [] \<Rightarrow> ([], [])
      | [x] \<Rightarrow> (x, [])
      | x # y # ys \<Rightarrow> (x, last (y # ys)))"

definition ascii_env :: "ustr \<Rightarrow> env" where
  "ascii_env answer =
     \<lparr> ollama = (\<lambda>w prompt. Inr answer),
       nlp = (\<lambda>text. Inr []),
       HumanName = first_and_last,
       print_error = (\<lambda>text. None),
       json_max_depth = 1000,
       int_max_str_digits = Some 4300,
       float_of = Float,
       float_nonzero = (\<lambda>f. f \<noteq> Float (cps ''0.0'')),
       str_lower = map ascii_lower,
       str_title = ascii_title False,
       is_alnum = (\<lambda>c. is_ascii_alpha c \<or> is_ascii_digit c),
       is_decimal = is_ascii_digit,
       ieq = (\<lambda>a c. ascii_lower c = ascii_lower a) \<rparr>"

text \<open>Answers of the service, for the concrete runs.\<close>

definition answer_empty_list :: ustr where
  "answer_empty_list = cps (''{'' @ quoted ''Projects'' @ '': []}'')"

definition answer_trailing_brace :: ustr where
  "answer_trailing_brace = cps (''{'' @ quoted ''Projects'' @ '': [1]} :-}'')"

definition answer_with_commentary :: ustr where
  "answer_with_commentary = cps (''Sure} {'' @ quoted ''Projects'' @ '': [1]} ok{'')"

section \<open>Properties\<close>

subsection \<open>Evaluation\<close>

text \<open>The equation of a repetition unfolds itself under a \<open>\<lambda>\<close>; for rewriting, the
  round after the next is kept folded in \<open>star_next\<close>.\<close>

lemma rx_run_Star:
  "rx_run E ic (Star r) p =
     concat (map (star_next E ic r (length (snd p))) (rx_run E ic r p)) @ [p]"
  unfolding star_next_def by (subst rx_run.simps(6)) (rule refl)

declare rx_run.simps(6) [simp del]
declare rx_run.simps(1-5) [code] rx_run_Star [code] rx_run.simps(7-9) [code]

lemma rx_times_numeral: "rx_times (numeral n) r = Seq r (rx_times (pred_numeral n) r)"
  by (simp add: numeral_eq_Suc)

lemma rx_upto_numeral: "rx_upto (numeral n) r = Alt (Seq r (rx_upto (pred_numeral n) r)) Eps"
  by (simp add: numeral_eq_Suc)

subsection \<open>Errors and dictionaries\<close>

lemma getitem_Some [simp]: "d k = Some v \<Longrightarrow> getitem d k = Inr v"
  by (simp add: getitem_def)

lemma getitem_None [simp]: "d k = None \<Longrightarrow> getitem d k = Inl (KeyError k)"
  by (simp add: getitem_def)

lemma ebind_Inr [simp]: "ebind (Inr x) f = f x"
  by (simp add: ebind_def)

lemma ebind_Inl [simp]: "ebind (Inl e) f = Inl e"
  by (simp add: ebind_def)

lemma ebind_eq_Inr: "ebind m f = Inr y \<longleftrightarrow> (\<exists>x. m = Inr x \<and> f x = Inr y)"
  by (cases m) simp_all

lemma py_print_ok [simp]: "print_error E text = None \<Longrightarrow> py_print E text w = Inr (w @ [Print text])"
  by (simp add: py_print_def)

text \<open>
  \<^bold>\<open>C6.\<close> When the record already holds a non-empty value under \<open>Projects\<close>,
  \<open>ensure_projects\<close> returns the record and the world as they are, in every
  environment: nothing is overwritten, the service is not called, nothing is printed,
  nothing is raised. The same holds of \<open>ensure_certifications\<close> and \<open>Certifications\<close>. So
  a second run on a populated record is a no-op.
\<close>

theorem ensure_populated_noop:
  "(output (cps ''Projects'') = Some v \<and> truthy E v \<longrightarrow>
      ensure_projects E sections output w = Inr (output, w)) \<and>
   (output (cps ''Certifications'') = Some v \<and> truthy E v \<longrightarrow>
      ensure_certifications E sections output w = Inr (output, w))"
  by (simp add: ensure_projects_def ensure_certifications_def)

theorem ensure_populated_noop_witness:
  "ensure_projects (ascii_env []) Map.empty
     [cps ''Projects'' \<mapsto> PList [PNone], cps ''Certifications'' \<mapsto> PList [PNone]] []
     = Inr ([cps ''Projects'' \<mapsto> PList [PNone], cps ''Certifications'' \<mapsto> PList [PNone]], []) \<and>
   ensure_certifications (ascii_env []) Map.empty
     [cps ''Projects'' \<mapsto> PList [PNone], cps ''Certifications'' \<mapsto> PList [PNone]] []
     = Inr ([cps ''Projects'' \<mapsto> PList [PNone], cps ''Certifications'' \<mapsto> PList [PNone]], [])"
  using ensure_populated_noop
    [of "[cps ''Projects'' \<mapsto> PList [PNone], cps ''Certifications'' \<mapsto> PList [PNone]]"
        "PList [PNone]" "ascii_env []" Map.empty "[]"]
  by (simp add: cps_def cp_def)

subsection \<open>The matcher\<close>

text \<open>Every position the matcher reaches lies ahead in the same text: what separates it
  from the start is the text of the match.\<close>

lemma rx_run_consumed:
  "q \<in> set (rx_run E ic r p) \<Longrightarrow> \<exists>u. fst q = rev u @ fst p \<and> snd p = u @ snd q"
proof (induction E ic r p arbitrary: q rule: rx_run.induct)
  case (1 E ic P p)
  then show ?case by (cases p) (auto split: list.splits if_splits)
next
  case (2 E ic a p)
  then show ?case by (cases p) (auto split: list.splits if_splits)
next
  case (3 E ic p)
  then show ?case by simp
next
  case (4 E ic r1 r2 p)
  from "4.prems" obtain m where m: "m \<in> set (rx_run E ic r1 p)" and q: "q \<in> set (rx_run E ic r2 m)"
    by auto
  from "4.IH"(1)[OF m] obtain u where u: "fst m = rev u @ fst p" "snd p = u @ snd m" by blast
  from "4.IH"(2)[OF m q] obtain v where v: "fst q = rev v @ fst m" "snd m = v @ snd q" by blast
  have "fst q = rev (u @ v) @ fst p \<and> snd p = (u @ v) @ snd q" using u v by simp
  then show ?case by blast
next
  case (5 E ic r1 r2 p)
  then show ?case by auto
next
  case (6 E ic r p)
  from "6.prems" consider "q = p"
    | m where "m \<in> set (rx_run E ic r p)" "length (snd m) < length (snd p)"
              "q \<in> set (rx_run E ic (Star r) m)"
    by (subst (asm) rx_run.simps(6)) (auto split: if_splits)
  then show ?case
  proof cases
    case 1
    then show ?thesis by simp
  next
    case 2
    from "6.IH"(1)[OF 2(1)] obtain u where u: "fst m = rev u @ fst p" "snd p = u @ snd m" by blast
    from "6.IH"(2)[OF 2(1) 2(2) 2(3)] obtain v where v: "fst q = rev v @ fst m" "snd m = v @ snd q"
      by blast
    have "fst q = rev (u @ v) @ fst p \<and> snd p = (u @ v) @ snd q" using u v by simp
    then show ?thesis by blast
  qed
next
  case (7 E ic p)
  then show ?case by (auto split: if_splits)
next
  case (8 E ic p)
  then show ?case by (auto split: if_splits)
next
  case (9 E ic p)
  then show ?case by (auto split: if_splits)
qed

lemma rx_run_Seq_iff:
  "q \<in> set (rx_run E ic (Seq r1 r2) p) \<longleftrightarrow>
     (\<exists>m \<in> set (rx_run E ic r1 p). q \<in> set (rx_run E ic r2 m))"
  by simp

lemma rx_run_Lit_iff:
  "q \<in> set (rx_run E ic (Lit a) p) \<longleftrightarrow>
     (\<exists>c cs. snd p = c # cs \<and> lit_eq E ic a c \<and> q = (c # fst p, cs))"
  by (cases p) (auto split: list.splits)

lemma rx_run_Sym_iff:
  "q \<in> set (rx_run E ic (Sym P) p) \<longleftrightarrow> (\<exists>c cs. snd p = c # cs \<and> P c \<and> q = (c # fst p, cs))"
  by (cases p) (auto split: list.splits)

lemma group_consumed: "snd p = u @ snd q \<Longrightarrow> group p q = u"
  by (simp add: group_def)

lemma rx_search_Some:
  "rx_search E ic r b s = Some (p, q) \<Longrightarrow>
     q \<in> set (rx_run E ic r p) \<and> (\<exists>pre. s = pre @ snd p \<and> fst p = rev pre @ b)"
proof (induction s arbitrary: b)
  case Nil
  then show ?case by (auto split: list.splits)
next
  case (Cons c cs)
  show ?case
  proof (cases "rx_run E ic r (b, c # cs)")
    case Nil
    with Cons.prems have "rx_search E ic r (c # b) cs = Some (p, q)" by simp
    from Cons.IH[OF this] obtain pre where
      "q \<in> set (rx_run E ic r p)" "cs = pre @ snd p" "fst p = rev pre @ c # b" by blast
    then have "q \<in> set (rx_run E ic r p) \<and> c # cs = (c # pre) @ snd p \<and> fst p = rev (c # pre) @ b"
      by simp
    then show ?thesis by blast
  next
    case (Cons q' qs)
    with Cons.prems have "p = (b, c # cs)" "q = q'" by auto
    with Cons show ?thesis by auto
  qed
qed

text \<open>A match of \<^verbatim>\<open>\{.*\}\<close> starts with the brace.\<close>

lemma braces_span:
  assumes "re_search E False BRACES_RE s = Some m"
  shows "\<exists>t. m = cp CHR ''{'' # t"
proof -
  define R where "R = Seq (Star (Sym (\<lambda>c. True))) (Lit (cp CHR ''}''))"
  have B: "BRACES_RE = Seq (Lit (cp CHR ''{'')) R"
    by (simp add: BRACES_RE_def R_def)
  from assms obtain p q where pq: "rx_search E False BRACES_RE [] s = Some (p, q)"
      and m: "m = group p q"
    by (auto simp: re_search_def)
  from rx_search_Some[OF pq] have "q \<in> set (rx_run E False (Seq (Lit (cp CHR ''{'')) R) p)"
    unfolding B by blast
  then obtain p1 where p1: "p1 \<in> set (rx_run E False (Lit (cp CHR ''{'')) p)"
      and q1: "q \<in> set (rx_run E False R p1)"
    using rx_run_Seq_iff by blast
  from p1 obtain c cs where cs: "snd p = c # cs" "lit_eq E False (cp CHR ''{'') c"
      "p1 = (c # fst p, cs)"
    using rx_run_Lit_iff by blast
  from cs(2) have c: "c = cp CHR ''{''" by (simp add: lit_eq_def)
  from rx_run_consumed[OF q1] cs(3) obtain v where "cs = v @ snd q" by auto
  with cs(1) c have "snd p = (cp CHR ''{'' # v) @ snd q" by simp
  from group_consumed[OF this] m show ?thesis by blast
qed

subsection \<open>A text that starts with a brace is read as a dictionary\<close>

text \<open>While an object is being read at the bottom of the stack, the stack is not empty
  and its bottom frame is that of a dictionary; the result, once there, is a dictionary.\<close>

lemma dict_bottom_Cons: "dict_bottom st \<Longrightarrow> dict_bottom (f # st)"
  by (simp add: dict_bottom_def)

lemma dict_bottom_tl: "dict_bottom (FList xs # st) \<Longrightarrow> dict_bottom st"
  by (auto simp: dict_bottom_def split: if_splits)

lemma deliver_dict_state:
  assumes "dict_bottom st" "deliver v st = Inr s"
  shows "dict_state s"
proof (cases st)
  case Nil
  with assms show ?thesis by (simp add: dict_bottom_def)
next
  case (Cons f st')
  with assms show ?thesis
    by (cases f) (auto simp: dict_bottom_def)
qed

lemma close_list_dict_state:
  "dict_bottom st \<Longrightarrow> close_list st = Inr s \<Longrightarrow> dict_state s"
proof (cases st rule: close_list.cases)
  case (1 xs st')
  assume a: "dict_bottom st" "close_list st = Inr s"
  with 1 have "dict_bottom st'" by (auto dest: dict_bottom_tl)
  with a 1 show ?thesis by (auto dest: deliver_dict_state)
qed auto

lemma close_dict_dict_state:
  "dict_bottom st \<Longrightarrow> close_dict st = Inr s \<Longrightarrow> dict_state s"
proof (cases st rule: close_dict.cases)
  case (1 d st')
  assume a: "dict_bottom st" "close_dict st = Inr s"
  show ?thesis
  proof (cases st')
    case Nil
    with a 1 show ?thesis by auto
  next
    case (Cons f fs)
    with a 1 have "dict_bottom st'" by (auto simp: dict_bottom_def)
    with a 1 show ?thesis by (auto dest: deliver_dict_state)
  qed
qed auto

lemma open_key_dict_state:
  "dict_bottom st \<Longrightarrow> open_key k st = Inr s \<Longrightarrow> dict_state s"
  by (cases "(k, st)" rule: open_key.cases) (auto simp: dict_bottom_def)

lemma after_comma_dict_state:
  "dict_bottom st \<Longrightarrow> after_comma st = Inr s \<Longrightarrow> dict_state s"
  by (cases st rule: after_comma.cases) auto

lemma want_value_dict_state:
  "dict_bottom st \<Longrightarrow> want_value E cl st t = Inr s \<Longrightarrow> dict_state s"
  by (cases "(E, cl, st, t)" rule: want_value.cases)
     (auto simp: ebind_eq_Inr open_frame_def split: if_splits intro: dict_bottom_Cons
           dest: deliver_dict_state close_list_dict_state)

lemma want_key_dict_state:
  "dict_bottom st \<Longrightarrow> want_key cl st t = Inr s \<Longrightarrow> dict_state s"
  by (cases "(cl, st, t)" rule: want_key.cases)
     (auto split: if_splits dest: open_key_dict_state close_dict_dict_state)

lemma after_value_dict_state:
  "dict_bottom st \<Longrightarrow> after_value st t = Inr s \<Longrightarrow> dict_state s"
  by (cases "(st, t)" rule: after_value.cases)
     (auto dest: after_comma_dict_state close_list_dict_state close_dict_dict_state)

lemma json_step_dict_state:
  "dict_state s \<Longrightarrow> json_step E s t = Inr s' \<Longrightarrow> dict_state s'"
  by (cases "(E, s, t)" rule: json_step.cases)
     (auto split: if_splits
           dest: want_value_dict_state want_key_dict_state after_value_dict_state)

lemma json_run_dict_state:
  "dict_state s \<Longrightarrow> json_run E s inp = Inr s' \<Longrightarrow> dict_state s'"
proof (induction E s inp rule: json_run.induct)
  case (1 E s)
  then show ?case by simp
next
  case (2 E s c cs)
  show ?case
  proof (cases "json_ws c")
    case True
    with 2 show ?thesis by simp
  next
    case False
    with "2.prems"(2) obtain t rest s1 where
      t: "next_token (c # cs) = Some (t, rest)" and s1: "json_step E s t = Inr s1"
      and run: "json_run E s1 rest = Inr s'"
      by (auto split: option.splits sum.splits)
    from json_step_dict_state[OF "2.prems"(1) s1] have "dict_state s1" .
    from "2.IH"(2)[OF False t refl s1 this run] show ?thesis .
  qed
qed

lemma json_loads_brace:
  assumes "json_loads E (cp CHR ''{'' # t) = Inr v"
  shows "\<exists>d. v = PDict d"
proof -
  from assms obtain st where run: "json_run E (WantValue, []) (cp CHR ''{'' # t) = Inr (Done v, st)"
    by (auto simp: json_loads_def split: sum.splits prod.splits pmode.splits)
  have tok: "next_token (cp CHR ''{'' # t) = Some (TLBrace, t)"
    by (simp add: next_token_def punct_def cp_def)
  have ws: "\<not> json_ws (cp CHR ''{'')"
    by (simp add: json_ws_def cp_def)
  from run tok ws have "json_run E (WantKeyOrClose, [FDict []]) t = Inr (Done v, st)"
    by (simp add: open_frame_def split: if_splits)
  moreover have "dict_state (WantKeyOrClose, [FDict []])"
    by (simp add: dict_bottom_def)
  ultimately have "dict_state (Done v, st)" by (rule json_run_dict_state[rotated])
  then show ?thesis by simp
qed

subsection \<open>\<^verbatim>\<open>call_llm\<close>\<close>

lemma get_section_PDict [simp]:
  "get_section (PDict d) sec = Inr (dict_get d sec (PDict d))"
  by (simp add: get_section_def)

text \<open>The span that the pattern finds is read as a dictionary or not at all, so
  \<^verbatim>\<open>parsed.get\<close> is always there.\<close>

lemma span_parses_to_dict:
  "re_search E False BRACES_RE s = Some m \<Longrightarrow> json_loads E m = Inr parsed \<Longrightarrow>
     \<exists>d. parsed = PDict d"
  using braces_span json_loads_brace by blast

lemma call_llm_blank:
  "py_strip body = [] \<Longrightarrow> call_llm E sec body w = Inr (sentinel sec, w)"
  by (simp add: call_llm_def)

lemma call_llm_no_span:
  "py_strip body \<noteq> [] \<Longrightarrow>
   ollama E w (full_prompt sec body) = Inr out \<Longrightarrow>
   re_search E False BRACES_RE out = None \<Longrightarrow>
   print_error E (warn_no_json sec) = None \<Longrightarrow>
   call_llm E sec body w =
     Inr (sentinel sec, w @ [Ollama (full_prompt sec body), Print (warn_no_json sec)])"
  by (simp add: call_llm_def)

lemma call_llm_invalid:
  "py_strip body \<noteq> [] \<Longrightarrow>
   ollama E w (full_prompt sec body) = Inr out \<Longrightarrow>
   re_search E False BRACES_RE out = Some m \<Longrightarrow>
   json_loads E m = Inl JSONDecodeError \<Longrightarrow>
   print_error E (warn_invalid_json sec) = None \<Longrightarrow>
   call_llm E sec body w =
     Inr (sentinel sec,
          w @ [Ollama (full_prompt sec body), Print (warn_invalid_json sec)])"
  by (simp add: call_llm_def)

lemma call_llm_parsed:
  assumes "py_strip body \<noteq> []"
    and "ollama E w (full_prompt sec body) = Inr out"
    and "re_search E False BRACES_RE out = Some m"
    and "json_loads E m = Inr parsed"
  shows "\<exists>d. parsed = PDict d \<and>
           call_llm E sec body w =
             Inr (dict_get d sec parsed, w @ [Ollama (full_prompt sec body)])"
proof -
  from span_parses_to_dict[OF assms(3,4)] obtain d where "parsed = PDict d" by blast
  with assms show ?thesis by (simp add: call_llm_def)
qed

text \<open>
  \<^bold>\<open>C2\<close>, as amended. \<open>call_llm\<close> returns the sentinel of the section in each of the
  three cases: the body is blank (then the world is unchanged: no call, nothing
  printed, whatever the environment); the service returns an answer that has no span
  from a brace to a brace (one call, one warning that names the section); the span is
  rejected by \<^verbatim>\<open>json.loads\<close> with \<^verbatim>\<open>JSONDecodeError\<close> (one call, the other warning). In
  the last two cases the warning is printed, so the console must take it. In the
  remaining case \<^verbatim>\<open>json.loads\<close> returns: the span is a JSON object, and the result is
  the value under the section's name, or the object; that value can itself be the
  sentinel. Nothing is said here of a run of the service that fails, of a warning that
  the console refuses, or of a span on which \<^verbatim>\<open>json.loads\<close> raises another exception.
\<close>

theorem call_llm_sentinel_cases:
  "(py_strip body = [] \<longrightarrow> call_llm E sec body w = Inr (sentinel sec, w)) \<and>
   (\<forall>out. py_strip body \<noteq> [] \<and>
      ollama E w (full_prompt sec body) = Inr out \<and>
      re_search E False BRACES_RE out = None \<and>
      print_error E (warn_no_json sec) = None \<longrightarrow>
        call_llm E sec body w =
          Inr (sentinel sec,
               w @ [Ollama (full_prompt sec body), Print (warn_no_json sec)])) \<and>
   (\<forall>out m. py_strip body \<noteq> [] \<and>
      ollama E w (full_prompt sec body) = Inr out \<and>
      re_search E False BRACES_RE out = Some m \<and>
      json_loads E m = Inl JSONDecodeError \<and>
      print_error E (warn_invalid_json sec) = None \<longrightarrow>
        call_llm E sec body w =
          Inr (sentinel sec,
               w @ [Ollama (full_prompt sec body), Print (warn_invalid_json sec)])) \<and>
   (\<forall>out m parsed. py_strip body \<noteq> [] \<and>
      ollama E w (full_prompt sec body) = Inr out \<and>
      re_search E False BRACES_RE out = Some m \<and>
      json_loads E m = Inr parsed \<longrightarrow>
        (\<exists>d. parsed = PDict d \<and>
          call_llm E sec body w =
            Inr (dict_get d sec parsed, w @ [Ollama (full_prompt sec body)])))"
  using call_llm_blank[of body E sec w]
    call_llm_no_span[of body E w sec] call_llm_invalid[of body E w sec]
    call_llm_parsed[of body E w sec]
  by blast

subsection \<open>Concrete runs\<close>

lemmas str_ev = py_strip_def isspace_def LF_def CR_def is_linebreak_def cps_def cp_def

lemmas rx_ev = rx_run_Star star_next_def lit_eq_def re_search_def re_match_def group_def
  rx_plus_def rx_opt_def rx_times_numeral rx_upto_numeral

lemmas json_ev = DQ_def BS_def quoted_def json_ws_def punct_def next_token_def scan_atom_def
  scan_number_def scan_sign_def scan_int_part_def scan_fraction_def scan_exponent_def
  scan_word_def digits_val_def is_ascii_digit_def in_range_def json_loads_def read_hex4_def
  read_low_surrogate_def hex_val_def escape_char_def string_step_def scan_string.simps
  atom_value_def open_frame_def cps_def cp_def

lemma strip_x: "py_strip (cps ''x'') = cps ''x''"
  by (simp add: str_ev)

lemma span_empty_list:
  "re_search E False BRACES_RE answer_empty_list = Some answer_empty_list"
  by (simp add: answer_empty_list_def BRACES_RE_def rx_ev quoted_def cps_def cp_def)

lemma loads_empty_list:
  "json_loads (ascii_env a) answer_empty_list = Inr (PDict [(cps ''Projects'', PList [])])"
  by (simp add: answer_empty_list_def json_ev ascii_env_def)

text \<open>The claim as it stands fails: the sentinel is also the result when the span is a
  JSON object that holds the sentinel. The body is not blank, the answer has a span,
  and the span is JSON.\<close>

theorem call_llm_sentinel_counterexample:
  "py_strip (cps ''x'') \<noteq> [] \<and>
   re_search (ascii_env answer_empty_list) False BRACES_RE answer_empty_list =
     Some answer_empty_list \<and>
   json_loads (ascii_env answer_empty_list) answer_empty_list =
     Inr (PDict [(cps ''Projects'', PList [])]) \<and>
   call_llm (ascii_env answer_empty_list) (cps ''Projects'') (cps ''x'') [] =
     Inr (sentinel (cps ''Projects''), [Ollama (full_prompt (cps ''Projects'') (cps ''x''))])"
proof -
  have "ollama (ascii_env answer_empty_list) [] (full_prompt (cps ''Projects'') (cps ''x'')) =
          Inr answer_empty_list"
    by (simp add: ascii_env_def)
  then have "call_llm (ascii_env answer_empty_list) (cps ''Projects'') (cps ''x'') [] =
     Inr (sentinel (cps ''Projects''), [Ollama (full_prompt (cps ''Projects'') (cps ''x''))])"
    by (simp add: call_llm_def strip_x span_empty_list loads_empty_list sentinel_def dict_get_def)
       (simp add: cps_def cp_def)
  then show ?thesis
    by (simp add: strip_x span_empty_list loads_empty_list) (simp add: cps_def cp_def)
qed

lemma span_none: "re_search E False BRACES_RE (cps ''no'') = None"
  by (simp add: BRACES_RE_def rx_ev cps_def cp_def)

lemma span_trailing_brace:
  "re_search E False BRACES_RE answer_trailing_brace = Some answer_trailing_brace"
  by (simp add: answer_trailing_brace_def BRACES_RE_def rx_ev quoted_def cps_def cp_def)

lemma loads_trailing_brace: "json_loads (ascii_env a) answer_trailing_brace = Inl JSONDecodeError"
  by (simp add: answer_trailing_brace_def json_ev ascii_env_def)

lemma ollama_ascii_env: "ollama (ascii_env a) w p = Inr a"
  by (simp add: ascii_env_def)

lemma print_error_ascii_env: "print_error (ascii_env a) t = None"
  by (simp add: ascii_env_def)

theorem call_llm_sentinel_cases_witness:
  "py_strip (cps '' '') = [] \<and>
   call_llm (ascii_env (cps ''no'')) (cps ''Projects'') (cps '' '') [] = Inr (PList [], []) \<and>
   py_strip (cps ''x'') \<noteq> [] \<and>
   re_search (ascii_env (cps ''no'')) False BRACES_RE (cps ''no'') = None \<and>
   call_llm (ascii_env (cps ''no'')) (cps ''Projects'') (cps ''x'') [] =
     Inr (PList [], [Ollama (full_prompt (cps ''Projects'') (cps ''x'')),
                     Print (warn_no_json (cps ''Projects''))]) \<and>
   re_search (ascii_env answer_trailing_brace) False BRACES_RE answer_trailing_brace =
     Some answer_trailing_brace \<and>
   json_loads (ascii_env answer_trailing_brace) answer_trailing_brace = Inl JSONDecodeError \<and>
   call_llm (ascii_env answer_trailing_brace) (cps ''Professional Summary'') (cps ''x'') [] =
     Inr (PStr [], [Ollama (full_prompt (cps ''Professional Summary'') (cps ''x'')),
                    Print (warn_invalid_json (cps ''Professional Summary''))]) \<and>
   json_loads (ascii_env answer_empty_list) answer_empty_list =
     Inr (PDict [(cps ''Projects'', PList [])]) \<and>
   call_llm (ascii_env answer_empty_list) (cps ''Education'') (cps ''x'') [] =
     Inr (PDict [(cps ''Projects'', PList [])],
          [Ollama (full_prompt (cps ''Education'') (cps ''x''))])"
proof -
  have blank: "py_strip (cps '' '') = []" by (simp add: str_ev)
  have ne: "py_strip (cps ''x'') \<noteq> []" by (simp add: strip_x) (simp add: cps_def)
  have sp: "sentinel (cps ''Projects'') = PList []" by (simp add: sentinel_def cps_def cp_def)
  have ss: "sentinel (cps ''Professional Summary'') = PStr []" by (simp add: sentinel_def)
  have dg: "dict_get [(cps ''Projects'', PList [])] (cps ''Education'')
              (PDict [(cps ''Projects'', PList [])]) = PDict [(cps ''Projects'', PList [])]"
    by (simp add: dict_get_def cps_def cp_def)
  note a = call_llm_sentinel_cases
             [of "cps '' ''" "ascii_env (cps ''no'')" "cps ''Projects''" "[]"]
  note b = call_llm_sentinel_cases
             [of "cps ''x''" "ascii_env (cps ''no'')" "cps ''Projects''" "[]"]
  note c = call_llm_sentinel_cases
             [of "cps ''x''" "ascii_env answer_trailing_brace" "cps ''Professional Summary''" "[]"]
  note d = call_llm_sentinel_cases
             [of "cps ''x''" "ascii_env answer_empty_list" "cps ''Education''" "[]"]
  from a blank sp
  have 1: "call_llm (ascii_env (cps ''no'')) (cps ''Projects'') (cps '' '') [] = Inr (PList [], [])"
    by simp
  from b ne span_none[of "ascii_env (cps ''no'')"] sp
  have 2: "call_llm (ascii_env (cps ''no'')) (cps ''Projects'') (cps ''x'') [] =
     Inr (PList [], [Ollama (full_prompt (cps ''Projects'') (cps ''x'')),
                     Print (warn_no_json (cps ''Projects''))])"
    by (simp add: ollama_ascii_env print_error_ascii_env)
  from c ne span_trailing_brace[of "ascii_env answer_trailing_brace"]
    loads_trailing_brace[of answer_trailing_brace] ss
  have 3: "call_llm (ascii_env answer_trailing_brace) (cps ''Professional Summary'') (cps ''x'') [] =
     Inr (PStr [], [Ollama (full_prompt (cps ''Professional Summary'') (cps ''x'')),
                    Print (warn_invalid_json (cps ''Professional Summary''))])"
    by (simp add: ollama_ascii_env print_error_ascii_env)
  from d ne span_empty_list[of "ascii_env answer_empty_list"]
    loads_empty_list[of answer_empty_list] dg
  have 4: "call_llm (ascii_env answer_empty_list) (cps ''Education'') (cps ''x'') [] =
     Inr (PDict [(cps ''Projects'', PList [])],
          [Ollama (full_prompt (cps ''Education'') (cps ''x''))])"
    by (simp add: ollama_ascii_env)
  from blank 1 ne 2 span_none[of "ascii_env (cps ''no'')"]
    span_trailing_brace[of "ascii_env answer_trailing_brace"]
    loads_trailing_brace[of answer_trailing_brace] 3 loads_empty_list[of answer_empty_list] 4
  show ?thesis by simp
qed

subsection \<open>The span from the first opening brace to the last closing brace\<close>

lemma any_then_step:
  "rx_run E False (ANY_THEN c) (b, x # xs) =
     rx_run E False (ANY_THEN c) (x # b, xs) @ rx_run E False (Lit c) (b, x # xs)"
  by (simp add: ANY_THEN_def rx_run_Star star_next_def)

lemma any_then_Nil: "rx_run E False (ANY_THEN c) (b, []) = []"
  by (simp add: ANY_THEN_def rx_run_Star)

lemma any_then_absent: "c \<notin> set s \<Longrightarrow> rx_run E False (ANY_THEN c) (b, s) = []"
proof (induction s arbitrary: b)
  case Nil
  then show ?case by (simp add: any_then_Nil)
next
  case (Cons x xs)
  then show ?case by (auto simp: any_then_step lit_eq_def)
qed

text \<open>The greedy \<^verbatim>\<open>.*\<close> followed by a character stops at the last place where that
  character stands.\<close>

lemma any_then_last:
  "c \<notin> set post \<Longrightarrow>
   \<exists>rest. rx_run E False (ANY_THEN c) (b, u @ c # post) = (c # rev u @ b, post) # rest"
proof (induction u arbitrary: b)
  case Nil
  then show ?case by (simp add: any_then_step any_then_absent lit_eq_def)
next
  case (Cons x u)
  from Cons.IH[OF Cons.prems, of "x # b"] obtain rest where
    "rx_run E False (ANY_THEN c) (x # b, u @ c # post) = (c # rev u @ x # b, post) # rest" by blast
  then show ?case by (simp add: any_then_step)
qed

lemma braces_at_open:
  assumes "cp CHR ''}'' \<notin> set post"
  shows "\<exists>rest. rx_run E False BRACES_RE (b, cp CHR ''{'' # u @ cp CHR ''}'' # post) =
           (cp CHR ''}'' # rev u @ cp CHR ''{'' # b, post) # rest"
proof -
  have "rx_run E False BRACES_RE (b, cp CHR ''{'' # u @ cp CHR ''}'' # post) =
        rx_run E False (ANY_THEN (cp CHR ''}'')) (cp CHR ''{'' # b, u @ cp CHR ''}'' # post)"
    by (simp add: BRACES_RE_def ANY_THEN_def lit_eq_def del: rx_run.simps(4))
       (simp add: lit_eq_def)
  with any_then_last[OF assms] show ?thesis by simp
qed

lemma braces_skip:
  "x \<noteq> cp CHR ''{'' \<Longrightarrow> rx_run E False BRACES_RE (b, x # s) = []"
  by (simp add: BRACES_RE_def lit_eq_def)

lemma braces_search:
  assumes "cp CHR ''{'' \<notin> set pre" "cp CHR ''}'' \<notin> set post"
  shows "re_search E False BRACES_RE (pre @ cp CHR ''{'' # u @ cp CHR ''}'' # post) =
           Some (cp CHR ''{'' # u @ [cp CHR ''}''])"
proof -
  have "\<exists>p q. rx_search E False BRACES_RE b (pre @ cp CHR ''{'' # u @ cp CHR ''}'' # post) =
                 Some (p, q) \<and>
          snd p = cp CHR ''{'' # u @ cp CHR ''}'' # post \<and> snd q = post" for b
    using assms(1)
  proof (induction pre arbitrary: b)
    case Nil
    from braces_at_open[OF assms(2), of E b u] show ?case by auto
  next
    case (Cons x pre)
    then have "x \<noteq> cp CHR ''{''" "cp CHR ''{'' \<notin> set pre" by auto
    with Cons.IH[of "x # b"] show ?case by (simp add: braces_skip)
  qed
  then obtain p q where
      "rx_search E False BRACES_RE [] (pre @ cp CHR ''{'' # u @ cp CHR ''}'' # post) = Some (p, q)"
      "snd p = cp CHR ''{'' # u @ cp CHR ''}'' # post" "snd q = post" by blast
  then show ?thesis by (simp add: re_search_def group_def)
qed

text \<open>
  \<^bold>\<open>C3\<close>, as amended. When the service returns an answer made of a text without an
  opening brace, then a text from an opening to a closing brace that \<^verbatim>\<open>json.loads\<close>
  accepts, then a text without a closing brace, \<open>call_llm\<close> reads exactly that text and
  returns the value under the section's name, or the whole object when the name is not
  a key; it calls the service once and prints nothing. That \<^verbatim>\<open>json.loads\<close> accepts the
  text means that it returns a value: the text is JSON, no deeper than the decoder can
  go and without an integer longer than \<^verbatim>\<open>int()\<close> converts, in the environment at hand.
\<close>

theorem call_llm_tolerates_commentary:
  assumes "py_strip body \<noteq> []"
    and "ollama E w (full_prompt sec body) = Inr (pre @ cp CHR ''{'' # u @ cp CHR ''}'' # post)"
    and "cp CHR ''{'' \<notin> set pre" and "cp CHR ''}'' \<notin> set post"
    and "json_loads E (cp CHR ''{'' # u @ [cp CHR ''}'']) = Inr parsed"
  shows "\<exists>d. parsed = PDict d \<and>
           call_llm E sec body w =
             Inr (case map_of d sec of Some v \<Rightarrow> v | None \<Rightarrow> PDict d,
                  w @ [Ollama (full_prompt sec body)])"
proof -
  from braces_search[OF assms(3,4), of E u]
  have "re_search E False BRACES_RE (pre @ cp CHR ''{'' # u @ cp CHR ''}'' # post) =
          Some (cp CHR ''{'' # u @ [cp CHR ''}''])" .
  from call_llm_parsed[OF assms(1,2) this assms(5)]
  show ?thesis by (auto simp: dict_get_def)
qed

lemma loads_projects_1:
  "json_loads (ascii_env a) (cp CHR ''{'' # cps (quoted ''Projects'' @ '': [1]'') @ [cp CHR ''}'']) =
     Inr (PDict [(cps ''Projects'', PList [PInt 1])])"
  by (simp add: json_ev ascii_env_def)

theorem call_llm_tolerates_commentary_witness:
  "py_strip (cps ''x'') \<noteq> [] \<and>
   answer_with_commentary =
     cps ''Sure} '' @ cp CHR ''{'' # cps (quoted ''Projects'' @ '': [1]'') @ cp CHR ''}'' # cps '' ok{'' \<and>
   cp CHR ''{'' \<notin> set (cps ''Sure} '') \<and> cp CHR ''}'' \<notin> set (cps '' ok{'') \<and>
   call_llm (ascii_env answer_with_commentary) (cps ''Projects'') (cps ''x'') [] =
     Inr (PList [PInt 1], [Ollama (full_prompt (cps ''Projects'') (cps ''x''))])"
proof -
  have eq: "answer_with_commentary =
      cps ''Sure} '' @ cp CHR ''{'' # cps (quoted ''Projects'' @ '': [1]'') @ cp CHR ''}'' # cps '' ok{''"
    by (simp add: answer_with_commentary_def cps_def)
  have ne: "py_strip (cps ''x'') \<noteq> []" by (simp add: strip_x) (simp add: cps_def)
  have o: "ollama (ascii_env answer_with_commentary) [] (full_prompt (cps ''Projects'') (cps ''x'')) =
      Inr (cps ''Sure} '' @ cp CHR ''{'' # cps (quoted ''Projects'' @ '': [1]'') @ cp CHR ''}'' #
           cps '' ok{'')"
    using eq by (simp add: ollama_ascii_env)
  have n1: "cp CHR ''{'' \<notin> set (cps ''Sure} '')" by (simp add: cps_def cp_def)
  have n2: "cp CHR ''}'' \<notin> set (cps '' ok{'')" by (simp add: cps_def cp_def)
  from call_llm_tolerates_commentary[OF ne o n1 n2 loads_projects_1]
  have "call_llm (ascii_env answer_with_commentary) (cps ''Projects'') (cps ''x'') [] =
     Inr (PList [PInt 1], [Ollama (full_prompt (cps ''Projects'') (cps ''x''))])"
    by simp
  with eq ne n1 n2 show ?thesis by simp
qed

text \<open>The claim as it stands fails: the answer below holds one JSON object, followed
  by a text with a closing brace. The span runs to that brace, it is not JSON, and the
  result is the sentinel.\<close>

theorem call_llm_commentary_counterexample:
  "answer_trailing_brace = cps (''{'' @ quoted ''Projects'' @ '': [1]}'') @ cps '' :-}'' \<and>
   json_loads (ascii_env answer_trailing_brace) (cps (''{'' @ quoted ''Projects'' @ '': [1]}'')) =
     Inr (PDict [(cps ''Projects'', PList [PInt 1])]) \<and>
   call_llm (ascii_env answer_trailing_brace) (cps ''Projects'') (cps ''x'') [] =
     Inr (PList [], [Ollama (full_prompt (cps ''Projects'') (cps ''x'')),
                     Print (warn_invalid_json (cps ''Projects''))])"
proof -
  have ne: "py_strip (cps ''x'') \<noteq> []" by (simp add: strip_x) (simp add: cps_def)
  have "json_loads (ascii_env answer_trailing_brace) (cps (''{'' @ quoted ''Projects'' @ '': [1]}'')) =
     Inr (PDict [(cps ''Projects'', PList [PInt 1])])"
    using loads_projects_1[of answer_trailing_brace] by (simp add: cps_def)
  moreover have "call_llm (ascii_env answer_trailing_brace) (cps ''Projects'') (cps ''x'') [] =
     Inr (PList [], [Ollama (full_prompt (cps ''Projects'') (cps ''x'')),
                     Print (warn_invalid_json (cps ''Projects''))])"
    using call_llm_invalid[where E = "ascii_env answer_trailing_brace" and w = "[]"
            and sec = "cps ''Projects''", OF ne ollama_ascii_env span_trailing_brace
            loads_trailing_brace print_error_ascii_env]
    by (simp add: sentinel_def cps_def cp_def)
  ultimately show ?thesis by (simp add: answer_trailing_brace_def cps_def)
qed

subsection \<open>\<^verbatim>\<open>find_sections\<close>\<close>

lemma heading_names: "map fst HEADING_PATTERNS = SECTION_ORDER"
  by (simp add: HEADING_PATTERNS_def SECTION_ORDER_def)

lemma distinct_SECTION_ORDER: "distinct SECTION_ORDER"
  by (simp add: SECTION_ORDER_def cps_def cp_def)

lemma heading_markers_set:
  "set (heading_markers E lines) =
     {(k, n). k < length lines \<and>
              (\<exists>pat. (n, pat) \<in> set HEADING_PATTERNS \<and> is_heading E pat (lines ! k))}"
proof (rule set_eqI, clarify)
  fix k n
  have "(k, n) \<in> set (heading_markers E lines) \<longleftrightarrow>
        (\<exists>ln. (k, ln) \<in> set (enumerate 0 lines) \<and>
              (\<exists>pat. (n, pat) \<in> set HEADING_PATTERNS \<and> is_heading E pat ln))"
    by (force simp: heading_markers_def)
  also have "\<dots> \<longleftrightarrow> k < length lines \<and>
        (\<exists>pat. (n, pat) \<in> set HEADING_PATTERNS \<and> is_heading E pat (lines ! k))"
    by (auto simp: in_set_enumerate_eq)
  finally show "(k, n) \<in> set (heading_markers E lines) \<longleftrightarrow>
      (k, n) \<in> {(k, n). k < length lines \<and>
         (\<exists>pat. (n, pat) \<in> set HEADING_PATTERNS \<and> is_heading E pat (lines ! k))}"
    by simp
qed

lemma heading_markers_names:
  "(k, n) \<in> set (heading_markers E lines) \<Longrightarrow> n \<in> set SECTION_ORDER"
  unfolding heading_markers_set heading_names[symmetric] by force

lemma dom_assign_sections:
  "dom (assign_sections lines spans m) = dom m \<union> (snd \<circ> fst) ` set spans"
  unfolding assign_sections_def
  by (induction spans arbitrary: m) (auto simp: dom_def)

lemma dom_initial_sections: "dom (map_of (map (\<lambda>k. (k, [])) SECTION_ORDER)) = set SECTION_ORDER"
  by (simp add: dom_map_of_conv_image_fst image_image)

lemma initial_sections:
  "k \<in> set SECTION_ORDER \<Longrightarrow> map_of (map (\<lambda>k. (k, [])) SECTION_ORDER) k = Some ([] :: ustr)"
  by (rule map_of_is_SomeI) (auto simp: comp_def distinct_SECTION_ORDER)

lemma dom_find_sections: "dom (find_sections E text) = set SECTION_ORDER"
proof -
  let ?lines = "map py_strip (py_splitlines text)"
  let ?markers = "sort (heading_markers E ?lines)"
  let ?spans = "zip ?markers (map fst (tl ?markers) @ [length ?lines])"
  have "(snd \<circ> fst) ` set ?spans \<subseteq> set SECTION_ORDER"
  proof
    fix n assume "n \<in> (snd \<circ> fst) ` set ?spans"
    then obtain k e where "((k, n), e) \<in> set ?spans" by force
    then have "(k, n) \<in> set ?markers" by (meson set_zip_leftD)
    then show "n \<in> set SECTION_ORDER" by (auto dest: heading_markers_names)
  qed
  then show ?thesis
    by (auto simp: find_sections_def Let_def dom_assign_sections dom_initial_sections
             simp del: set_zip)
qed

lemma find_sections_no_heading:
  assumes "\<forall>ln \<in> set (map py_strip (py_splitlines text)).
             \<forall>(name, pat) \<in> set HEADING_PATTERNS. \<not> is_heading E pat ln"
    and "k \<in> set SECTION_ORDER"
  shows "find_sections E text k = Some []"
proof -
  have "set (heading_markers E (map py_strip (py_splitlines text))) = {}"
  proof -
    have "\<not> is_heading E pat (map py_strip (py_splitlines text) ! a)"
      if "a < length (map py_strip (py_splitlines text))" "(b, pat) \<in> set HEADING_PATTERNS"
      for a b pat
      using assms(1) that nth_mem[OF that(1)] by blast
    then show ?thesis unfolding heading_markers_set by blast
  qed
  then have "heading_markers E (map py_strip (py_splitlines text)) = []" by simp
  then show ?thesis
    using initial_sections[OF assms(2)]
    by (simp add: find_sections_def assign_sections_def)
qed

text \<open>
  \<^bold>\<open>C4.\<close> The mapping that \<open>find_sections\<close> returns has exactly the eleven section
  names as its keys, whatever the text and the environment. When no line of the text
  (stripped, as the code tests it) matches a heading pattern, every one of them maps to
  the empty string.
\<close>

theorem find_sections_keys:
  "dom (find_sections E text) = set SECTION_ORDER \<and>
   length SECTION_ORDER = 11 \<and> distinct SECTION_ORDER \<and>
   ((\<forall>ln \<in> set (map py_strip (py_splitlines text)).
       \<forall>(name, pat) \<in> set HEADING_PATTERNS. \<not> is_heading E pat ln) \<longrightarrow>
    (\<forall>k \<in> set SECTION_ORDER. find_sections E text k = Some []))"
  using dom_find_sections distinct_SECTION_ORDER find_sections_no_heading
  by (simp add: SECTION_ORDER_def)

lemma no_heading_x:
  "\<forall>(name, pat) \<in> set HEADING_PATTERNS. \<not> is_heading (ascii_env []) pat (cps ''x'')"
  by code_simp

theorem find_sections_keys_witness:
  "map py_strip (py_splitlines (cps ''x'')) = [cps ''x''] \<and>
   list_all (\<lambda>(name, pat). \<not> is_heading (ascii_env []) pat (cps ''x'')) HEADING_PATTERNS \<and>
   dom (find_sections (ascii_env []) (cps ''x'')) = set SECTION_ORDER \<and>
   list_all (\<lambda>k. find_sections (ascii_env []) (cps ''x'') k = Some []) SECTION_ORDER"
proof -
  have lines: "map py_strip (py_splitlines (cps ''x'')) = [cps ''x'']"
    by (simp add: py_strip_def isspace_def is_linebreak_def cps_def cp_def)
  have "\<forall>ln \<in> set (map py_strip (py_splitlines (cps ''x''))).
          \<forall>(name, pat) \<in> set HEADING_PATTERNS. \<not> is_heading (ascii_env []) pat ln"
    unfolding lines using no_heading_x by simp
  with find_sections_keys[of "ascii_env []" "cps ''x''"] lines no_heading_x show ?thesis
    by (simp add: list_all_iff)
qed

lemma assign_sections_other:
  "name \<notin> (snd \<circ> fst) ` set spans \<Longrightarrow> assign_sections lines spans m name = m name"
  unfolding assign_sections_def
  by (induction spans arbitrary: m) auto

text \<open>The last assignment to a name is the one that stays.\<close>

lemma assign_sections_last:
  assumes "name \<notin> (snd \<circ> fst) ` set ys"
  shows "assign_sections lines (xs @ ((j, name), e) # ys) m name = Some (section_body lines j e)"
proof -
  have "assign_sections lines (xs @ ((j, name), e) # ys) m =
        assign_sections lines ys ((assign_sections lines xs m)(name \<mapsto> section_body lines j e))"
    by (simp add: assign_sections_def)
  with assign_sections_other[OF assms] show ?thesis by simp
qed

lemma zip_spans:
  "zip (pre @ (j, name) # post) (map fst (tl (pre @ (j, name) # post)) @ [n]) =
     zip pre (map fst (tl (pre @ [(j, name)]))) @
     ((j, name), (case post of [] \<Rightarrow> n | (k, _) # _ \<Rightarrow> k)) #
     zip post (map fst (tl post) @ [n])"
proof (induction pre)
  case Nil
  then show ?case by (cases post) auto
next
  case (Cons a pre)
  then show ?case by (cases pre) auto
qed

lemma span_end_split:
  "(j, name) \<notin> set pre \<Longrightarrow>
   span_end (pre @ (j, name) # post) (j, name) n = (case post of [] \<Rightarrow> n | (k, _) # _ \<Rightarrow> k)"
proof -
  assume "(j, name) \<notin> set pre"
  then have "dropWhile (\<lambda>x. x \<noteq> (j, name)) pre = []" by auto
  then have "dropWhile (\<lambda>x. x \<noteq> (j, name)) (pre @ (j, name) # post) = (j, name) # post"
    by (simp add: dropWhile_append3)
  then show ?thesis by (simp add: span_end_def split: list.splits)
qed

lemma distinct_heading_markers: "distinct (heading_markers E lines)"
proof -
  have names: "distinct (map fst HEADING_PATTERNS)"
    by (simp add: heading_names distinct_SECTION_ORDER)
  have inner: "distinct (map (\<lambda>(name, pat). (i, name))
                 (filter (\<lambda>(name, pat). is_heading E pat ln) HEADING_PATTERNS))"
    for i :: nat and ln
  proof -
    let ?xs = "filter (\<lambda>(name, pat). is_heading E pat ln) HEADING_PATTERNS"
    have "distinct (map fst ?xs)"
      using names by (rule distinct_map_filter)
    then have "distinct (map (Pair i) (map fst ?xs))"
      by (subst distinct_map) (simp add: inj_on_def)
    moreover have "(\<lambda>(name, pat). (i, name)) = Pair i \<circ> (fst :: ustr \<times> rx \<Rightarrow> ustr)"
      by auto
    ultimately show ?thesis by (simp only: map_map)
  qed
  have "distinct (concat (map (\<lambda>(i, ln). map (\<lambda>(name, pat). (i, name))
          (filter (\<lambda>(name, pat). is_heading E pat ln) HEADING_PATTERNS)) xs))"
    if "distinct (map fst xs)" for xs :: "(nat \<times> ustr) list"
    using that
  proof (induction xs)
    case Nil
    then show ?case by simp
  next
    case (Cons x xs)
    obtain i ln where x: "x = (i, ln)" by (cases x)
    from Cons.prems have "i \<notin> fst ` set xs" "distinct (map fst xs)" by (auto simp: x)
    then show ?case using Cons.IH inner[of i ln] by (force simp: x)
  qed
  then show ?thesis by (simp add: heading_markers_def)
qed

lemma find_sections_span:
  assumes "lines = map py_strip (py_splitlines text)"
    and "sort (heading_markers E lines) = pre @ (j, name) # post"
    and "name \<notin> snd ` set post"
  shows "find_sections E text name =
           Some (section_body lines j
                   (span_end (sort (heading_markers E lines)) (j, name) (length lines)))"
proof -
  have "distinct (sort (heading_markers E lines))"
    by (simp add: distinct_heading_markers)
  with assms(2) have notin: "(j, name) \<notin> set pre" by auto
  have names: "name \<notin> (snd \<circ> fst) ` set (zip post (map fst (tl post) @ [length lines]))"
    using assms(3) by (force dest: set_zip_leftD)
  have "find_sections E text name =
      assign_sections lines
        (zip (sort (heading_markers E lines))
             (map fst (tl (sort (heading_markers E lines))) @ [length lines]))
        (map_of (map (\<lambda>k. (k, [])) SECTION_ORDER)) name"
    by (simp add: find_sections_def Let_def assms(1))
  also have "\<dots> = Some (section_body lines j (case post of [] \<Rightarrow> length lines | (k, _) # _ \<Rightarrow> k))"
    unfolding assms(2) zip_spans by (rule assign_sections_last[OF names])
  finally show ?thesis
    by (simp only: assms(2) span_end_split[OF notin])
qed

text \<open>
  \<^bold>\<open>C5.\<close> When the heading pattern of one section name matches two lines of the text,
  and the later of them is the last line it matches, the entry of that name is the
  span of the later line: the lines after it, up to the line of the next marker (the one
  that follows it in the sorted list of markers) or to the end of the text, joined and
  stripped. What the earlier line had assigned is overwritten.
\<close>

theorem find_sections_last_match_wins:
  assumes "lines = map py_strip (py_splitlines text)"
    and "(name, pat) \<in> set HEADING_PATTERNS"
    and "i < j" and "j < length lines"
    and "is_heading E pat (lines ! i)" and "is_heading E pat (lines ! j)"
    and "\<forall>k. j < k \<and> k < length lines \<longrightarrow> \<not> is_heading E pat (lines ! k)"
  shows "find_sections E text name =
           Some (py_strip (py_join [LF]
                   (slice lines (j + 1)
                      (span_end (sort (heading_markers E lines)) (j, name) (length lines)))))"
proof -
  let ?ms = "sort (heading_markers E lines)"
  have distinct_names: "distinct (map fst HEADING_PATTERNS)"
    by (simp add: heading_names distinct_SECTION_ORDER)
  have pat_unique: "pat' = pat" if "(name, pat') \<in> set HEADING_PATTERNS" for pat'
    using eq_key_imp_eq_value[OF distinct_names that assms(2)] .
  have mem: "(k, name) \<in> set ?ms \<longleftrightarrow> k < length lines \<and> is_heading E pat (lines ! k)" for k
  proof
    assume "(k, name) \<in> set ?ms"
    then obtain pat' where "k < length lines" "(name, pat') \<in> set HEADING_PATTERNS"
      "is_heading E pat' (lines ! k)"
      by (auto simp: heading_markers_set)
    with pat_unique show "k < length lines \<and> is_heading E pat (lines ! k)" by blast
  next
    assume "k < length lines \<and> is_heading E pat (lines ! k)"
    with assms(2) show "(k, name) \<in> set ?ms" by (auto simp: heading_markers_set)
  qed
  from assms(4,6) have jm: "(j, name) \<in> set ?ms" by (simp only: mem)
  then have "\<exists>x \<in> set ?ms. snd x = name" by (rule bexI[rotated]) simp
  from split_list_last_prop[OF this] obtain pre x post where
    split: "?ms = pre @ x # post" and x: "snd x = name" and post: "\<forall>y \<in> set post. snd y \<noteq> name"
    by blast
  obtain k where k: "x = (k, name)" using x by (cases x) auto
  have "(k, name) \<in> set ?ms" unfolding split k by simp
  then have k_heading: "k < length lines \<and> is_heading E pat (lines ! k)" by (simp only: mem)
  have "k = j"
  proof (rule ccontr)
    assume neq: "k \<noteq> j"
    from k_heading assms(7) have "\<not> j < k" by blast
    with neq have "k < j" by simp
    from jm have "(j, name) \<in> set pre \<or> (j, name) = (k, name) \<or> (j, name) \<in> set post"
      unfolding split k by auto
    moreover from post have "(j, name) \<notin> set post" by fastforce
    ultimately have inpre: "(j, name) \<in> set pre" using neq by simp
    have "sorted ?ms" by simp
    then have "sorted (pre @ (k, name) # post)" unfolding split k .
    then have "\<forall>y \<in> set pre. y \<le> (k, name)" by (simp add: sorted_append)
    with inpre have "(j, name) \<le> (k, name)" by blast
    with \<open>k < j\<close> show False by (simp add: less_eq_prod_def)
  qed
  with split k have ms: "?ms = pre @ (j, name) # post" by simp
  have "name \<notin> snd ` set post" using post by blast
  from find_sections_span[OF assms(1) ms this]
  show ?thesis by (simp only: section_body_def)
qed

lemma education_pattern: "(cps ''Education'', rx_text ''education'') \<in> set HEADING_PATTERNS"
  by (simp add: HEADING_PATTERNS_def)

lemma two_headings_lines:
  "map py_strip (py_splitlines (cps ''Education'' @ [LF] @ cps ''a'' @ [LF] @
                                cps ''Education'' @ [LF] @ cps ''b'')) =
     [cps ''Education'', cps ''a'', cps ''Education'', cps ''b'']"
  by (simp add: py_strip_def isspace_def is_linebreak_def cps_def cp_def LF_def CR_def)

lemma two_headings_matches:
  "is_heading (ascii_env []) (rx_text ''education'') (cps ''Education'') \<and>
   \<not> is_heading (ascii_env []) (rx_text ''education'') (cps ''b'')"
  by code_simp

lemma two_headings_markers:
  "sort (heading_markers (ascii_env [])
           [cps ''Education'', cps ''a'', cps ''Education'', cps ''b'']) =
     [(0, cps ''Education''), (2, cps ''Education'')]"
  by code_simp

theorem find_sections_last_match_wins_witness:
  "map py_strip (py_splitlines (cps ''Education'' @ [LF] @ cps ''a'' @ [LF] @
                                cps ''Education'' @ [LF] @ cps ''b'')) =
     [cps ''Education'', cps ''a'', cps ''Education'', cps ''b''] \<and>
   (cps ''Education'', rx_text ''education'') \<in> set HEADING_PATTERNS \<and>
   is_heading (ascii_env []) (rx_text ''education'') (cps ''Education'') \<and>
   \<not> is_heading (ascii_env []) (rx_text ''education'') (cps ''b'') \<and>
   find_sections (ascii_env []) (cps ''Education'' @ [LF] @ cps ''a'' @ [LF] @
                                 cps ''Education'' @ [LF] @ cps ''b'') (cps ''Education'') =
     Some (cps ''b'')"
proof -
  let ?t = "cps ''Education'' @ [LF] @ cps ''a'' @ [LF] @ cps ''Education'' @ [LF] @ cps ''b''"
  let ?ls = "[cps ''Education'', cps ''a'', cps ''Education'', cps ''b'']"
  have l: "?ls = map py_strip (py_splitlines ?t)" using two_headings_lines by simp
  have h0: "is_heading (ascii_env []) (rx_text ''education'') (?ls ! 0)"
    using two_headings_matches by simp
  have h2: "is_heading (ascii_env []) (rx_text ''education'') (?ls ! 2)"
    using two_headings_matches by simp
  have after: "\<forall>k. 2 < k \<and> k < length ?ls \<longrightarrow>
                 \<not> is_heading (ascii_env []) (rx_text ''education'') (?ls ! k)"
  proof (intro allI impI)
    fix k :: nat assume "2 < k \<and> k < length ?ls"
    then have "k = 3" by simp
    then show "\<not> is_heading (ascii_env []) (rx_text ''education'') (?ls ! k)"
      using two_headings_matches by simp
  qed
  have "find_sections (ascii_env []) ?t (cps ''Education'') =
          Some (py_strip (py_join [LF]
                  (slice ?ls (2 + 1)
                     (span_end (sort (heading_markers (ascii_env []) ?ls))
                        (2, cps ''Education'') (length ?ls)))))"
    by (rule find_sections_last_match_wins[OF l education_pattern _ _ h0 h2 after]) simp_all
  also have "\<dots> = Some (cps ''b'')"
    unfolding two_headings_markers
    by (simp add: span_end_def slice_def py_strip_def isspace_def cps_def cp_def)
  finally show ?thesis
    using two_headings_lines education_pattern two_headings_matches by simp
qed

end
